theory Spec2Isabelle
  imports Complex_Main
begin

section \<open>JavaScript strings and numbers\<close>

text \<open>
  A JavaScript string is a sequence of UTF-16 code units; \<open>length\<close>, \<open>substring\<close>,
  \<open>trim\<close> and a regular expression without the \<open>u\<close> flag all work on code units.
  A code unit is a natural number (below 65536 in a real string; nothing below depends
  on the bound).
\<close>

type_synonym code_unit = nat
type_synonym jsstring = "code_unit list"

definition cu :: "char \<Rightarrow> code_unit" where
  "cu c = of_char c"

definition lit :: "string \<Rightarrow> jsstring" where
  "lit s = map cu s"

text \<open>
  \<open>String.prototype.trim\<close> removes WhiteSpace and LineTerminator code points from both
  ends: TAB, LF, VT, FF, CR, SP, NBSP, U+1680, U+2000..U+200A, U+2028, U+2029, U+202F,
  U+205F, U+3000 and U+FEFF.
\<close>

definition is_white_space :: "code_unit \<Rightarrow> bool" where
  "is_white_space c =
     (c \<in> set [9, 10, 11, 12, 13, 32, 160, 5760, 8232, 8233, 8239, 8287, 12288, 65279]
      \<or> (8192 \<le> c \<and> c \<le> 8202))"

definition trim :: "jsstring \<Rightarrow> jsstring" where
  "trim s = rev (dropWhile is_white_space (rev (dropWhile is_white_space s)))"

text \<open>
  \<open>s.substring(a, b)\<close> clamps both indices to the length and swaps them when \<open>a > b\<close>;
  \<open>s.substring(a)\<close> runs to the end of the string.
\<close>

definition substring :: "jsstring \<Rightarrow> nat \<Rightarrow> nat \<Rightarrow> jsstring" where
  "substring s a b =
     (let a' = min a (length s); b' = min b (length s);
          lo = min a' b'; hi = max a' b'
      in take (hi - lo) (drop lo s))"

definition substring_from :: "jsstring \<Rightarrow> nat \<Rightarrow> jsstring" where
  "substring_from s a = substring s a (length s)"

text \<open>\<open>s.split(',')\<close>: one piece more than there are separators, empty pieces kept.\<close>

fun split_on :: "code_unit \<Rightarrow> jsstring \<Rightarrow> jsstring list" where
  "split_on d [] = [[]]"
| "split_on d (c # cs) =
     (if c = d then [] # split_on d cs
      else (case split_on d cs of t # ts \<Rightarrow> (c # t) # ts | [] \<Rightarrow> [[c]]))"

text \<open>
  A JavaScript Number is an IEEE 754 binary64 value: a finite value \<open>Num x\<close> (with
  \<open>Num 0\<close> for \<open>+0\<close>), \<open>-0\<close>, one of the two infinities, or \<open>NaN\<close>. An arithmetic
  operation takes the exact real result and rounds it to the nearest binary64 value,
  ties to even; a result too large becomes an signed_infinity, a result too small a signed signed_zero.
\<close>

datatype number = Num real | NegZero | PosInfinity | NegInfinity | NaN

definition isNaN :: "number \<Rightarrow> bool" where
  "isNaN n = (n = NaN)"

text \<open>The nearest integer, a tie going to the even one.\<close>

definition round_even :: "real \<Rightarrow> int" where
  "round_even t =
     (let f = \<lfloor>t\<rfloor>; d = t - of_int f
      in if d < 1 / 2 then f else if 1 / 2 < d then f + 1 else if even f then f else f + 1)"

text \<open>
  The exponent of the binade of \<open>a \<ge> 0\<close>: the largest \<open>e\<close> from \<open>-1021\<close> to \<open>1024\<close>
  with \<open>2\<^sup>e \<le> a\<close>, looked for from the top, and \<open>-1022\<close> when there is none (the lowest
  normal binade and the subnormal range share their spacing).
\<close>

primrec exp_below :: "nat \<Rightarrow> real \<Rightarrow> int" where
  "exp_below 0 a = - 1022"
| "exp_below (Suc n) a =
     (if 2 powi (int n - 1021) \<le> a then int n - 1021 else exp_below n a)"

definition grid_exp :: "real \<Rightarrow> int" where
  "grid_exp x = exp_below 2046 \<bar>x\<bar>"

text \<open>
  Rounding to the binary64 grid: in the binade of exponent \<open>e\<close> the values are the
  multiples of \<open>2\<^sup>e\<^sup>-\<^sup>5\<^sup>2\<close>. The exponent is not bounded above here; \<open>to_binary64\<close> turns a
  rounded magnitude of \<open>2\<^sup>1\<^sup>0\<^sup>2\<^sup>4\<close> or more into an signed_infinity and a rounded \<open>0\<close> into the
  signed_zero of the given sign.
\<close>

definition rnd :: "real \<Rightarrow> real" where
  "rnd x = (let q = 2 powi (grid_exp x - 52) in q * of_int (round_even (x / q)))"

definition to_binary64 :: "bool \<Rightarrow> real \<Rightarrow> number" where
  "to_binary64 neg x =
     (let r = rnd x
      in if r = 0 then (if neg then NegZero else Num 0)
         else if 2 ^ 1024 \<le> \<bar>r\<bar> then (if r < 0 then NegInfinity else PosInfinity)
         else Num r)"

fun sign_bit :: "number \<Rightarrow> bool" where
  "sign_bit (Num x) = (x < 0)"
| "sign_bit NegZero = True"
| "sign_bit PosInfinity = False"
| "sign_bit NegInfinity = True"
| "sign_bit NaN = False"

text \<open>The real value of a finite number (and \<open>0\<close> for the others, where it is not used).\<close>

fun finite_value :: "number \<Rightarrow> real" where
  "finite_value (Num x) = x"
| "finite_value n = 0"

definition is_infinite :: "number \<Rightarrow> bool" where
  "is_infinite n = (n = PosInfinity \<or> n = NegInfinity)"

definition is_zero :: "number \<Rightarrow> bool" where
  "is_zero n = (n = Num 0 \<or> n = NegZero)"

definition signed_infinity :: "bool \<Rightarrow> number" where
  "signed_infinity neg = (if neg then NegInfinity else PosInfinity)"

definition signed_zero :: "bool \<Rightarrow> number" where
  "signed_zero neg = (if neg then NegZero else Num 0)"

fun js_negate :: "number \<Rightarrow> number" where
  "js_negate (Num x) = (if x = 0 then NegZero else Num (- x))"
| "js_negate NegZero = Num 0"
| "js_negate PosInfinity = NegInfinity"
| "js_negate NegInfinity = PosInfinity"
| "js_negate NaN = NaN"

text \<open>The operators \<open>*\<close> and \<open>/\<close> on Numbers.\<close>

definition js_mul :: "number \<Rightarrow> number \<Rightarrow> number" where
  "js_mul a b =
     (if a = NaN \<or> b = NaN then NaN
      else if is_infinite a \<or> is_infinite b then
        (if is_zero a \<or> is_zero b then NaN else signed_infinity (sign_bit a \<noteq> sign_bit b))
      else to_binary64 (sign_bit a \<noteq> sign_bit b) (finite_value a * finite_value b))"

definition js_div :: "number \<Rightarrow> number \<Rightarrow> number" where
  "js_div a b =
     (if a = NaN \<or> b = NaN then NaN
      else if is_infinite a then
        (if is_infinite b then NaN else signed_infinity (sign_bit a \<noteq> sign_bit b))
      else if is_infinite b then signed_zero (sign_bit a \<noteq> sign_bit b)
      else if is_zero b then
        (if is_zero a then NaN else signed_infinity (sign_bit a \<noteq> sign_bit b))
      else to_binary64 (sign_bit a \<noteq> sign_bit b) (finite_value a / finite_value b))"

text \<open>Truthiness of a Number, as \<open>!imageWidth\<close> tests it: the zeros and \<open>NaN\<close> are falsy.\<close>

fun truthy :: "number \<Rightarrow> bool" where
  "truthy (Num x) = (x \<noteq> 0)"
| "truthy NegZero = False"
| "truthy NaN = False"
| "truthy PosInfinity = True"
| "truthy NegInfinity = True"

text \<open>
  Two conditions used in the statements below. A number is a binary64 value when it is
  not a finite value off the grid or beyond the largest finite magnitude (every result
  of an operation is one; the type also holds other reals). An exact real result is
  normal or signed_zero when it is \<open>0\<close> or at least \<open>2\<^sup>-\<^sup>1\<^sup>0\<^sup>2\<^sup>2\<close> in magnitude, that is, not in the
  subnormal range.
\<close>

definition is_binary64 :: "number \<Rightarrow> bool" where
  "is_binary64 n = (case n of Num x \<Rightarrow> rnd x = x \<and> \<bar>x\<bar> < 2 ^ 1024 | _ \<Rightarrow> True)"

definition normal_or_zero :: "real \<Rightarrow> bool" where
  "normal_or_zero y = (y = 0 \<or> 2 powi (- 1022) \<le> \<bar>y\<bar>)"

subsection \<open>The built-in parseFloat\<close>

text \<open>
  \<open>parseFloat\<close> skips leading white space and reads the longest prefix that is a
  StrDecimalLiteral: an optional sign, then \<open>Infinity\<close>, or digits with an optional
  fraction, or a dot with digits, each with an optional exponent that counts only when
  it has digits. The result is \<open>NaN\<close> when no prefix is one, and otherwise the exact
  decimal value of the prefix rounded to binary64.
\<close>

definition is_digit :: "code_unit \<Rightarrow> bool" where
  "is_digit c = (48 \<le> c \<and> c \<le> 57)"

definition digits_value :: "jsstring \<Rightarrow> int" where
  "digits_value ds = foldl (\<lambda>a d. 10 * a + (int d - 48)) 0 ds"

definition scale10 :: "real \<Rightarrow> int \<Rightarrow> real" where
  "scale10 x k = (if 0 \<le> k then x * 10 ^ nat k else x / 10 ^ nat (- k))"

definition exponent_part :: "jsstring \<Rightarrow> int" where
  "exponent_part r =
     (case r of
        [] \<Rightarrow> 0
      | e # r1 \<Rightarrow>
          if e = cu CHR ''e'' \<or> e = cu CHR ''E'' then
            (let neg = (case r1 of [] \<Rightarrow> False | c # _ \<Rightarrow> c = cu CHR ''-'');
                 r2 = (case r1 of [] \<Rightarrow> []
                       | c # r' \<Rightarrow> if c = cu CHR ''-'' \<or> c = cu CHR ''+'' then r' else r1);
                 ds = takeWhile is_digit r2
             in if ds = [] then 0
                else if neg then - digits_value ds else digits_value ds)
          else 0)"

fun strip_prefix :: "'a list \<Rightarrow> 'a list \<Rightarrow> 'a list option" where
  "strip_prefix [] s = Some s"
| "strip_prefix (p # ps) [] = None"
| "strip_prefix (p # ps) (c # cs) = (if p = c then strip_prefix ps cs else None)"

definition str_unsigned_decimal :: "jsstring \<Rightarrow> number" where
  "str_unsigned_decimal s =
     (if strip_prefix (lit ''Infinity'') s \<noteq> None then PosInfinity
      else
        let ip = takeWhile is_digit s; r = dropWhile is_digit s
        in (case r of
              [] \<Rightarrow> if ip = [] then NaN else to_binary64 False (of_int (digits_value ip))
            | c # r' \<Rightarrow>
                if c = cu CHR ''.'' then
                  (let fp = takeWhile is_digit r'; r'' = dropWhile is_digit r'
                   in if ip = [] \<and> fp = [] then NaN
                      else to_binary64 False (scale10 (of_int (digits_value (ip @ fp)))
                            (exponent_part r'' - int (length fp))))
                else if ip = [] then NaN
                else to_binary64 False (scale10 (of_int (digits_value ip)) (exponent_part r))))"

definition parseFloat :: "jsstring \<Rightarrow> number" where
  "parseFloat s =
     (let t = dropWhile is_white_space s
      in (case t of
            [] \<Rightarrow> NaN
          | c # r \<Rightarrow>
              if c = cu CHR ''-'' then js_negate (str_unsigned_decimal r)
              else if c = cu CHR ''+'' then str_unsigned_decimal r
              else str_unsigned_decimal t))"

section \<open>The annotation parser\<close>

text \<open>
  The regular expression of \<open>parseBoxesFromTokens\<close> is
  \<^verbatim>\<open>/<\|ref\|>([^<]+)<\|\/ref\|><\|det\|>\[\[([^\]]+)\]\]<\|\/det\|>/g\<close>.
  \<open>match_at s\<close> matches it at the start of \<open>s\<close> and returns the two groups and the
  length of the whole match. Each group is a greedy negated class followed by a
  literal that starts with the excluded character, so only the longest run can be
  followed by the literal and backtracking finds nothing else.
\<close>

definition match_at :: "jsstring \<Rightarrow> (jsstring \<times> jsstring \<times> nat) option" where
  "match_at s =
     (case strip_prefix (lit ''<|ref|>'') s of
        None \<Rightarrow> None
      | Some s1 \<Rightarrow>
          let g1 = takeWhile (\<lambda>c. c \<noteq> cu CHR ''<'') s1;
              r1 = dropWhile (\<lambda>c. c \<noteq> cu CHR ''<'') s1
          in if g1 = [] then None
             else (case strip_prefix (lit ''<|/ref|><|det|>[['') r1 of
                     None \<Rightarrow> None
                   | Some s2 \<Rightarrow>
                       let g2 = takeWhile (\<lambda>c. c \<noteq> cu CHR '']'') s2;
                           r2 = dropWhile (\<lambda>c. c \<noteq> cu CHR '']'') s2
                       in if g2 = [] then None
                          else (case strip_prefix (lit '']]<|/det|>'') r2 of
                                  None \<Rightarrow> None
                                | Some s3 \<Rightarrow> Some (g1, g2, length s - length s3))))"

text \<open>The match object of \<open>exec\<close>: \<open>match[1]\<close>, \<open>match[2]\<close>, \<open>match.index\<close>, \<open>match[0].length\<close>.\<close>

record exec_result =
  capture1 :: jsstring
  capture2 :: jsstring
  index :: nat
  length0 :: nat

text \<open>The leftmost position at or after \<open>p\<close> where the pattern matches; \<open>s\<close> is the text from \<open>p\<close> on.\<close>

fun search :: "nat \<Rightarrow> jsstring \<Rightarrow> exec_result option" where
  "search p [] =
     (case match_at [] of
        Some (g1, g2, n) \<Rightarrow> Some \<lparr>capture1 = g1, capture2 = g2, index = p, length0 = n\<rparr>
      | None \<Rightarrow> None)"
| "search p (c # cs) =
     (case match_at (c # cs) of
        Some (g1, g2, n) \<Rightarrow> Some \<lparr>capture1 = g1, capture2 = g2, index = p, length0 = n\<rparr>
      | None \<Rightarrow> search (Suc p) cs)"

text \<open>
  \<open>regex.exec(str)\<close> of a global regular expression, with the object's \<open>lastIndex\<close>
  passed in and returned: the search starts at \<open>lastIndex\<close>; a match moves
  \<open>lastIndex\<close> to its end, a failure resets it to \<open>0\<close>.
\<close>

definition exec :: "jsstring \<Rightarrow> nat \<Rightarrow> exec_result option \<times> nat" where
  "exec str lastIndex =
     (if length str < lastIndex then (None, 0)
      else (case search lastIndex (drop lastIndex str) of
              None \<Rightarrow> (None, 0)
            | Some m \<Rightarrow> (Some m, index m + length0 m)))"

record match_data =
  mcontent :: jsstring
  coords :: jsstring
  matchStart :: nat
  matchEnd :: nat

definition to_match_data :: "exec_result \<Rightarrow> match_data" where
  "to_match_data m =
     \<lparr>mcontent = trim (capture1 m), coords = capture2 m,
      matchStart = index m, matchEnd = index m + length0 m\<rparr>"


lemma strip_prefix_length:
  "strip_prefix p s = Some r \<Longrightarrow> length s = length p + length r"
  by (induction p s rule: strip_prefix.induct) (auto split: if_splits)

lemma match_at_cases:
  assumes "match_at s = Some (g1, g2, n)"
  obtains s1 s2 s3 where
    "strip_prefix (lit ''<|ref|>'') s = Some s1"
    "g1 = takeWhile (\<lambda>c. c \<noteq> cu CHR ''<'') s1" "g1 \<noteq> []"
    "strip_prefix (lit ''<|/ref|><|det|>[['') (dropWhile (\<lambda>c. c \<noteq> cu CHR ''<'') s1) = Some s2"
    "g2 = takeWhile (\<lambda>c. c \<noteq> cu CHR '']'') s2" "g2 \<noteq> []"
    "strip_prefix (lit '']]<|/det|>'') (dropWhile (\<lambda>c. c \<noteq> cu CHR '']'') s2) = Some s3"
    "n = length s - length s3"
  using assms unfolding match_at_def Let_def
  by (simp split: option.splits if_splits)

lemma match_at_length:
  assumes "match_at s = Some (g1, g2, n)"
  shows "0 < n \<and> n \<le> length s"
proof -
  from assms obtain s1 s2 s3 where
    a: "strip_prefix (lit ''<|ref|>'') s = Some s1"
    and b: "strip_prefix (lit ''<|/ref|><|det|>[['') (dropWhile (\<lambda>c. c \<noteq> cu CHR ''<'') s1) = Some s2"
    and c: "strip_prefix (lit '']]<|/det|>'') (dropWhile (\<lambda>c. c \<noteq> cu CHR '']'') s2) = Some s3"
    and n: "n = length s - length s3"
    by (rule match_at_cases)
  have "length s = length (lit ''<|ref|>'') + length s1"
    using a by (rule strip_prefix_length)
  then have 1: "length s = 7 + length s1" by (simp add: lit_def)
  have 2: "length s2 \<le> length s1"
    using strip_prefix_length [OF b] length_dropWhile_le [of "\<lambda>c. c \<noteq> cu CHR ''<''" s1] by simp
  have 3: "length s3 \<le> length s2"
    using strip_prefix_length [OF c] length_dropWhile_le [of "\<lambda>c. c \<noteq> cu CHR '']''" s2] by simp
  from 1 2 3 n show ?thesis by simp
qed

lemma search_bounds:
  "search p s = Some m \<Longrightarrow> p \<le> index m \<and> 0 < length0 m \<and> index m + length0 m \<le> p + length s"
proof (induction s arbitrary: p)
  case Nil
  then show ?case
    by (auto split: option.splits dest: match_at_length)
next
  case (Cons c cs)
  show ?case
  proof (cases "match_at (c # cs)")
    case None
    with Cons.prems have "search (Suc p) cs = Some m" by simp
    from Cons.IH [OF this] show ?thesis by simp
  next
    case (Some t)
    obtain g1 g2 n where t: "t = (g1, g2, n)" by (cases t)
    from Some t match_at_length [of "c # cs" g1 g2 n] Cons.prems show ?thesis
      by auto
  qed
qed

lemma exec_advances:
  assumes "exec str li = (Some m, li')"
  shows "li < li' \<and> li \<le> length str \<and> li' \<le> length str \<and> li' = index m + length0 m \<and> li \<le> index m"
proof -
  from assms have le: "li \<le> length str" and s: "search li (drop li str) = Some m"
    and li': "li' = index m + length0 m"
    by (auto simp: exec_def split: if_splits option.splits)
  from search_bounds [OF s] le li' show ?thesis by auto
qed

text \<open>
  The loop \<^verbatim>\<open>while ((match = refDetRegex.exec(tokenText)) !== null) matches.push(...)\<close>,
  returning the collected matches and the \<open>lastIndex\<close> the regular expression is left with.
\<close>

function collect_matches :: "jsstring \<Rightarrow> nat \<Rightarrow> match_data list \<Rightarrow> match_data list \<times> nat" where
  "collect_matches tokenText lastIndex matches =
     (case exec tokenText lastIndex of
        (None, li) \<Rightarrow> (matches, li)
      | (Some m, li) \<Rightarrow> collect_matches tokenText li (matches @ [to_match_data m]))"
  by pat_completeness auto
termination
  by (relation "measure (\<lambda>(tokenText, lastIndex, matches). Suc (length tokenText) - lastIndex)")
     (auto dest: exec_advances [OF sym])

declare collect_matches.simps [simp del]


text \<open>The box objects pushed by \<open>parseBoxesFromTokens\<close>.\<close>

record box =
  content :: jsstring
  textContent :: jsstring
  isType :: bool
  type :: jsstring
  x1 :: number
  y1 :: number
  x2 :: number
  y2 :: number
  isComplete :: bool

definition KNOWN_TYPES :: "jsstring list" where
  "KNOWN_TYPES =
     [lit ''title'', lit ''sub_title'', lit ''text'', lit ''table'', lit ''image'',
      lit ''image_caption'', lit ''figure'', lit ''caption'', lit ''formula'', lit ''list'']"

text \<open>\<^verbatim>\<open>coords.split(',').map(s => parseFloat(s.trim())).filter(n => !isNaN(n))\<close>\<close>

definition parse_coords :: "jsstring \<Rightarrow> number list" where
  "parse_coords c =
     filter (\<lambda>n. \<not> isNaN n) (map (\<lambda>s. parseFloat (trim s)) (split_on (cu CHR '','') c))"

text \<open>
  The body of the loop over \<open>i\<close>: the box that match \<open>i\<close> contributes, if any. Nothing in
  the body can throw (the index \<open>i + 1\<close> is read only when it exists), so the
  \<open>catch\<close> branch is never taken.
\<close>

definition box_of_match :: "jsstring \<Rightarrow> bool \<Rightarrow> match_data list \<Rightarrow> nat \<Rightarrow> box option" where
  "box_of_match tokenText isOcrComplete matches i =
     (let matchData = matches ! i;
          cont = mcontent matchData;
          cs = parse_coords (coords matchData)
      in if length cs = 4 then
           (let isT = (cont \<in> set KNOWN_TYPES);
                txt = (if i < length matches - 1
                       then trim (substring tokenText (matchEnd matchData)
                                    (matchStart (matches ! (i + 1))))
                       else trim (substring_from tokenText (matchEnd matchData)));
                complete = (if i < length matches - 1 then 0 < length txt
                            else isOcrComplete \<and> 0 < length txt)
            in Some \<lparr>content = cont, textContent = txt, isType = isT,
                      type = (if isT then cont else lit ''text''),
                      x1 = cs ! 0, y1 = cs ! 1, x2 = cs ! 2, y2 = cs ! 3,
                      isComplete = complete\<rparr>)
         else None)"

text \<open>
  \<open>parseBoxesFromTokens\<close>: a fresh regular expression (\<open>lastIndex = 0\<close>) collects the
  matches, then the loop runs over \<open>i = 0, ..., matches.length - 1\<close>.
\<close>

definition parseBoxesFromTokens :: "jsstring \<Rightarrow> bool \<Rightarrow> box list" where
  "parseBoxesFromTokens tokenText isOcrComplete =
     (let matches = fst (collect_matches tokenText 0 [])
      in List.map_filter (box_of_match tokenText isOcrComplete matches) [0..<length matches])"


section \<open>The overlay renderer\<close>

definition DEEPSEEK_COORD_MAX :: number where
  "DEEPSEEK_COORD_MAX = Num 999"

text \<open>
  The table \<open>TYPE_COLORS\<close>, looked up by own keys. (Members inherited from
  \<open>Object.prototype\<close>, such as \<open>constructor\<close>, are not modelled; none is a known type.)
\<close>

definition TYPE_COLORS :: "(jsstring \<times> jsstring) list" where
  "TYPE_COLORS =
     [(lit ''title'', lit ''#8B5CF6''),
      (lit ''sub_title'', lit ''#A78BFA''),
      (lit ''text'', lit ''#3B82F6''),
      (lit ''table'', lit ''#F59E0B''),
      (lit ''image'', lit ''#EC4899''),
      (lit ''figure'', lit ''#06B6D4''),
      (lit ''caption'', lit ''#10B981''),
      (lit ''image_caption'', lit ''#4EC483''),
      (lit ''formula'', lit ''#EF4444''),
      (lit ''list'', lit ''#6366F1'')]"

datatype pointer_events = PointerAll | PointerNone

datatype cursor_style = CursorDefault | CursorPointer

text \<open>
  One \<open>g.ocr-box-group\<close> element appended to the overlay, with the attributes that
  depend on the box: the scaled corners (the rectangles span from \<open>(scaledX1, scaledY1)\<close>
  with width \<open>scaledX2 - scaledX1\<close> and height \<open>scaledY2 - scaledY1\<close>), the colour and the
  unknown-type styling flag, the label, the pointer and cursor styles, whether the group
  is dimmed (\<open>opacity = 0.6\<close>), and the text its click listener copies, if it has one.
  Constant attributes, the hover listeners and the tooltip are left out.
\<close>

record group =
  scaledX1 :: number
  scaledY1 :: number
  scaledX2 :: number
  scaledY2 :: number
  color :: jsstring
  isUnknownType :: bool
  displayText :: jsstring
  pointerEvents :: pointer_events
  cursor :: cursor_style
  dimmed :: bool
  clickCopies :: "jsstring option"

text \<open>The body of \<open>newBoxes.forEach\<close> in \<open>renderBoxes\<close>.\<close>

definition render_group :: "number \<Rightarrow> number \<Rightarrow> jsstring \<Rightarrow> box \<Rightarrow> group" where
  "render_group imageWidth imageHeight promptType b =
     (let isInteractive = (promptType = lit ''ocr'' \<or> promptType = lit ''document'');
          isClickable =
            (if promptType = lit ''ocr'' then \<not> isType b \<and> isInteractive
             else if promptType = lit ''document''
               then isType b \<and> isComplete b \<and> textContent b \<noteq> [] \<and> isInteractive
             else False);
          copyText =
            (if promptType = lit ''ocr'' then content b
             else if promptType = lit ''document'' then textContent b
             else [])
      in \<lparr>scaledX1 = js_mul (js_div (x1 b) DEEPSEEK_COORD_MAX) imageWidth,
          scaledY1 = js_mul (js_div (y1 b) DEEPSEEK_COORD_MAX) imageHeight,
          scaledX2 = js_mul (js_div (x2 b) DEEPSEEK_COORD_MAX) imageWidth,
          scaledY2 = js_mul (js_div (y2 b) DEEPSEEK_COORD_MAX) imageHeight,
          color = (case map_of TYPE_COLORS (type b) of Some c \<Rightarrow> c | None \<Rightarrow> lit ''#FF1493''),
          isUnknownType = (map_of TYPE_COLORS (type b) = None),
          displayText =
            (if isType b then type b
             else if 30 < length (content b) then substring (content b) 0 30 @ lit ''...''
             else content b),
          pointerEvents = (if isClickable then PointerAll else PointerNone),
          cursor =
            (if isClickable then CursorPointer
             else if isType b \<and> promptType = lit ''document'' \<and> \<not> isComplete b then CursorDefault
             else if isType b then CursorDefault else CursorPointer),
          dimmed = (\<not> isClickable \<and> isType b \<and> promptType = lit ''document'' \<and> \<not> isComplete b),
          clickCopies = (if isClickable then Some copyText else None)\<rparr>)"

text \<open>
  The module state the renderer works on: the cursor \<open>lastBoxCount\<close>, the children of
  \<open>ocrBoxesOverlay\<close> and its \<open>viewBox\<close> attribute.
\<close>

record overlay_state =
  lastBoxCount :: nat
  overlay :: "group list"
  viewBox :: "(number \<times> number) option"

definition renderBoxes ::
  "box list \<Rightarrow> number \<Rightarrow> number \<Rightarrow> jsstring \<Rightarrow> 'a overlay_state_scheme \<Rightarrow> 'a overlay_state_scheme" where
  "renderBoxes boxes imageWidth imageHeight promptType st =
     (if \<not> truthy imageWidth \<or> \<not> truthy imageHeight \<or> length boxes = 0 then st
      else
        let st1 = (if viewBox st = None then st\<lparr>viewBox := Some (imageWidth, imageHeight)\<rparr> else st);
            newBoxes = drop (lastBoxCount st1) boxes
        in st1\<lparr>overlay := overlay st1 @ map (render_group imageWidth imageHeight promptType) newBoxes,
               lastBoxCount := length boxes\<rparr>)"

text \<open>
  The final render of \<open>performOCR\<close>: the cursor is reset, the overlay emptied and all
  boxes of the complete text drawn.
\<close>

definition render_full ::
  "box list \<Rightarrow> number \<Rightarrow> number \<Rightarrow> jsstring \<Rightarrow> 'a overlay_state_scheme \<Rightarrow> 'a overlay_state_scheme" where
  "render_full boxes imageWidth imageHeight promptType st =
     renderBoxes boxes imageWidth imageHeight promptType (st\<lparr>lastBoxCount := 0, overlay := []\<rparr>)"

section \<open>The live update of performOCR\<close>

text \<open>
  \<open>performOCR\<close> runs on the event loop: it resets the overlay, starts a timer whose
  callback fetches \<open>/progress\<close> and renders what the response holds, awaits the OCR
  request, clears the timer and renders the final text. A callback that has sent its
  fetch is in flight until the response arrives; it keeps the image dimensions of the
  \<open>performOCR\<close> call that created it (they are local variables of that call). The
  number of the operation that started it is recorded for the statements below; the
  code keeps no such number.
\<close>

datatype progress_status = Idle | Loading | Processing | Loaded | Error

record progress_data =
  status :: progress_status
  raw_token_stream :: "jsstring option"

record pending_poll =
  poll_epoch :: nat
  poll_width :: number
  poll_height :: number

record app_state = overlay_state +
  isProcessing :: bool
  currentImagePath :: "jsstring option"
  currentPromptType :: jsstring
  currentRawTokens :: "jsstring option"
  tokenPollInterval :: bool
  imageNaturalWidth :: number
  imageNaturalHeight :: number
  pending :: "pending_poll list"
  epoch :: nat

text \<open>The result of the \<open>perform-ocr\<close> request: \<open>raw_tokens\<close> on success, or a failure.\<close>

datatype ocr_result = Success "jsstring option" | Failure

datatype event =
    LoadImage jsstring
  | Start jsstring number number
  | Tick
  | PollResolved nat progress_data
  | PollFailed nat
  | Settle ocr_result

text \<open>The module's initial state.\<close>

definition initial_state :: app_state where
  "initial_state =
     \<lparr>lastBoxCount = 0, overlay = [], viewBox = None,
      isProcessing = False, currentImagePath = None, currentPromptType = [],
      currentRawTokens = None, tokenPollInterval = False,
      imageNaturalWidth = Num 0, imageNaturalHeight = Num 0, pending = [], epoch = 0\<rparr>"

text \<open>\<open>loadImage\<close>: the path is stored and the overlay reset.\<close>

definition loadImage :: "jsstring \<Rightarrow> app_state \<Rightarrow> app_state" where
  "loadImage filePath st =
     st\<lparr>currentImagePath := Some filePath, overlay := [], viewBox := None, lastBoxCount := 0\<rparr>"

text \<open>
  \<open>performOCR\<close> up to \<open>setInterval\<close>: refused without an image or while processing;
  otherwise the prompt type is stored, the overlay reset, the image loaded (its natural
  dimensions are the event's arguments) and the timer started.
\<close>

definition start :: "jsstring \<Rightarrow> number \<Rightarrow> number \<Rightarrow> app_state \<Rightarrow> app_state" where
  "start promptType w h st =
     (if currentImagePath st = None \<or> currentImagePath st = Some [] \<or> isProcessing st then st
      else st\<lparr>isProcessing := True, currentPromptType := promptType,
              lastBoxCount := 0, overlay := [], viewBox := None,
              imageNaturalWidth := w, imageNaturalHeight := h,
              tokenPollInterval := True, epoch := Suc (epoch st)\<rparr>)"

text \<open>The timer fires: a callback starts and sends its fetch.\<close>

definition tick :: "app_state \<Rightarrow> app_state" where
  "tick st =
     (if tokenPollInterval st
      then st\<lparr>pending := pending st @
                 [\<lparr>poll_epoch = epoch st, poll_width = imageNaturalWidth st,
                   poll_height = imageNaturalHeight st\<rparr>]\<rparr>
      else st)"

text \<open>
  The rest of the timer callback, run when its fetch has answered with \<open>data\<close>:
  while the status is \<open>processing\<close> and the token stream is non-empty, the boxes are
  parsed as not complete and rendered.
\<close>

definition apply_poll :: "pending_poll \<Rightarrow> progress_data \<Rightarrow> app_state \<Rightarrow> app_state" where
  "apply_poll p data st =
     (if status data = Processing then
        (case raw_token_stream data of
           None \<Rightarrow> st
         | Some raw \<Rightarrow>
             if raw = [] then st
             else renderBoxes (parseBoxesFromTokens raw False) (poll_width p) (poll_height p)
                    (currentPromptType st) st)
      else st)"

definition remove_nth :: "nat \<Rightarrow> 'a list \<Rightarrow> 'a list" where
  "remove_nth k xs = take k xs @ drop (Suc k) xs"

definition poll_resolved :: "nat \<Rightarrow> progress_data \<Rightarrow> app_state \<Rightarrow> app_state" where
  "poll_resolved k data st =
     (if k < length (pending st)
      then apply_poll (pending st ! k) data (st\<lparr>pending := remove_nth k (pending st)\<rparr>)
      else st)"

text \<open>A fetch that fails is caught and ignored.\<close>

definition poll_failed :: "nat \<Rightarrow> app_state \<Rightarrow> app_state" where
  "poll_failed k st =
     (if k < length (pending st) then st\<lparr>pending := remove_nth k (pending st)\<rparr> else st)"

text \<open>
  \<open>performOCR\<close> after the OCR request has answered: the timer is cleared; on success the
  raw tokens are stored and, if they and both dimensions are truthy, rendered in full;
  on failure the overlay is reset. The \<open>finally\<close> block clears \<open>isProcessing\<close>.
\<close>

definition settle :: "ocr_result \<Rightarrow> app_state \<Rightarrow> app_state" where
  "settle result st =
     (if \<not> isProcessing st then st
      else
        let st1 = st\<lparr>tokenPollInterval := False\<rparr>;
            st2 =
              (case result of
                 Success raw_tokens \<Rightarrow>
                   (let st' = st1\<lparr>currentRawTokens := raw_tokens\<rparr>
                    in (case raw_tokens of
                          None \<Rightarrow> st'
                        | Some raw \<Rightarrow>
                            if raw \<noteq> [] \<and> truthy (imageNaturalWidth st') \<and> truthy (imageNaturalHeight st')
                            then render_full (parseBoxesFromTokens raw True)
                                   (imageNaturalWidth st') (imageNaturalHeight st')
                                   (currentPromptType st') st'
                            else st'))
               | Failure \<Rightarrow> st1\<lparr>overlay := [], viewBox := None, lastBoxCount := 0\<rparr>)
        in st2\<lparr>isProcessing := False\<rparr>)"

fun step :: "event \<Rightarrow> app_state \<Rightarrow> app_state" where
  "step (LoadImage filePath) st = loadImage filePath st"
| "step (Start promptType w h) st = start promptType w h st"
| "step Tick st = tick st"
| "step (PollResolved k data) st = poll_resolved k data st"
| "step (PollFailed k) st = poll_failed k st"
| "step (Settle result) st = settle result st"

definition run :: "event list \<Rightarrow> app_state \<Rightarrow> app_state" where
  "run evs st = foldl (\<lambda>s e. step e s) st evs"


section \<open>Properties of the scan loop\<close>

text \<open>
  Matches that follow each other without overlap: each starts at or after \<open>lo\<close> and
  the end of its predecessor, and ends at or after its own start.
\<close>

fun spaced :: "nat \<Rightarrow> match_data list \<Rightarrow> bool" where
  "spaced lo [] = True"
| "spaced lo (m # ms) =
     (lo \<le> matchStart m \<and> matchStart m \<le> matchEnd m \<and> spaced (matchEnd m) ms)"

definition last_end :: "nat \<Rightarrow> match_data list \<Rightarrow> nat" where
  "last_end lo ms = (if ms = [] then lo else matchEnd (last ms))"

lemma exec_None: "exec str li = (None, li') \<Longrightarrow> li' = 0"
  by (auto simp: exec_def split: if_splits option.splits)

lemma collect_matches_None:
  "exec t li = (None, li') \<Longrightarrow> collect_matches t li ms = (ms, li')"
  by (subst collect_matches.simps) simp

lemma collect_matches_Some:
  "exec t li = (Some m, li') \<Longrightarrow>
   collect_matches t li ms = collect_matches t li' (ms @ [to_match_data m])"
  by (subst collect_matches.simps) simp

text \<open>Induction along the loop: a property kept by each iteration holds of the result.\<close>

lemma collect_matches_induct [consumes 1, case_names stop iterate]:
  assumes "collect_matches t li ms = (res, li'')"
    and "\<And>li ms. exec t li = (None, 0) \<Longrightarrow> P li ms ms"
    and "\<And>li ms m li' res. exec t li = (Some m, li') \<Longrightarrow> li < li' \<Longrightarrow>
           P li' (ms @ [to_match_data m]) res \<Longrightarrow> P li ms res"
  shows "li'' = 0 \<and> P li ms res"
  using assms(1)
proof (induction "Suc (length t) - li" arbitrary: li ms rule: less_induct)
  case less
  obtain r li' where e: "exec t li = (r, li')" by (cases "exec t li")
  show ?case
  proof (cases r)
    case None
    with e have "li' = 0" by (simp add: exec_None)
    with e None less.prems assms(2) [of li ms] show ?thesis
      by (simp add: collect_matches_None)
  next
    case (Some m)
    with e have e': "exec t li = (Some m, li')" by simp
    from exec_advances [OF e'] have lt: "li < li'" and "li \<le> length t" by simp_all
    then have "Suc (length t) - li' < Suc (length t) - li" by simp
    moreover from less.prems e' have "collect_matches t li' (ms @ [to_match_data m]) = (res, li'')"
      by (simp add: collect_matches_Some)
    ultimately have "li'' = 0 \<and> P li' (ms @ [to_match_data m]) res"
      by (rule less.hyps)
    with assms(3) [OF e' lt] show ?thesis by simp
  qed
qed

lemma collect_matches_lastIndex: "snd (collect_matches t li ms) = 0"
proof -
  obtain res li'' where c: "collect_matches t li ms = (res, li'')"
    by (cases "collect_matches t li ms")
  from c have "li'' = 0 \<and> True"
    by (rule collect_matches_induct [where P = "\<lambda>_ _ _. True"]) simp_all
  with c show ?thesis by simp
qed

lemma spaced_snoc:
  "spaced lo (ms @ [m]) =
   (spaced lo ms \<and> last_end lo ms \<le> matchStart m \<and> matchStart m \<le> matchEnd m)"
  by (induction ms arbitrary: lo) (auto simp: last_end_def)

lemma spaced_adjacent:
  "spaced lo ms \<Longrightarrow> Suc i < length ms \<Longrightarrow> matchEnd (ms ! i) \<le> matchStart (ms ! Suc i)"
proof (induction ms arbitrary: lo i)
  case Nil
  then show ?case by simp
next
  case (Cons m ms)
  show ?case
  proof (cases i)
    case 0
    with Cons.prems show ?thesis by (cases ms) auto
  next
    case (Suc j)
    with Cons.prems Cons.IH [of "matchEnd m" j] show ?thesis by simp
  qed
qed

lemma spaced_last_end: "spaced lo ms \<Longrightarrow> lo \<le> last_end lo ms"
  by (induction ms arbitrary: lo) (fastforce simp: last_end_def)+

lemma spaced_nth_le_last:
  "spaced lo ms \<Longrightarrow> i < length ms \<Longrightarrow>
   matchStart (ms ! i) \<le> matchEnd (ms ! i) \<and> matchEnd (ms ! i) \<le> last_end lo ms"
proof (induction ms arbitrary: lo i)
  case Nil
  then show ?case by simp
next
  case (Cons m ms)
  show ?case
  proof (cases i)
    case 0
    from Cons.prems have "spaced (matchEnd m) ms" by simp
    from spaced_last_end [OF this] have "matchEnd m \<le> last_end lo (m # ms)"
      by (auto simp: last_end_def split: if_splits)
    with 0 Cons.prems show ?thesis by simp
  next
    case (Suc j)
    with Cons.prems Cons.IH [of "matchEnd m" j] show ?thesis
      by (auto simp: last_end_def)
  qed
qed

lemma collect_matches_spaced:
  assumes "collect_matches t 0 [] = (ms, li)"
  shows "spaced 0 ms \<and> last_end 0 ms \<le> length t"
proof -
  let ?P = "\<lambda>li acc res. spaced 0 acc \<and> last_end 0 acc \<le> li \<and> li \<le> length t
              \<longrightarrow> spaced 0 res \<and> last_end 0 res \<le> length t"
  from assms have "li = 0 \<and> ?P 0 [] ms"
  proof (induction rule: collect_matches_induct [where P = ?P])
    case (stop li ms)
    then show ?case by simp
  next
    case (iterate li ms m li' res)
    from exec_advances [OF iterate(1)]
    have "li \<le> index m" "li' = index m + length0 m" "li' \<le> length t" by simp_all
    with iterate(3) show ?case
      by (auto simp: spaced_snoc to_match_data_def last_end_def)
  qed
  then show ?thesis by (simp add: last_end_def)
qed

lemma matches_ordered:
  assumes "fst (collect_matches t 0 []) = ms" and "Suc i < length ms"
  shows "matchEnd (ms ! i) \<le> matchStart (ms ! Suc i) \<and> matchStart (ms ! Suc i) \<le> length t"
proof -
  obtain li where c: "collect_matches t 0 [] = (ms, li)"
    using assms(1) by (cases "collect_matches t 0 []") simp
  from collect_matches_spaced [OF c] have s: "spaced 0 ms" and l: "last_end 0 ms \<le> length t"
    by simp_all
  from spaced_nth_le_last [OF s, of "Suc i"] assms(2) l
  have "matchStart (ms ! Suc i) \<le> length t" by simp
  with spaced_adjacent [OF s assms(2)] show ?thesis by simp
qed

lemma substring_between:
  "a \<le> b \<Longrightarrow> b \<le> length s \<Longrightarrow> substring s a b = take (b - a) (drop a s)"
  by (simp add: substring_def Let_def min_def max_def)

lemma substring_from_drop: "substring_from s a = drop a s"
  by (auto simp: substring_from_def substring_def Let_def min_def max_def)

lemma map_filter_snoc:
  "List.map_filter f (xs @ [x]) =
   List.map_filter f xs @ (case f x of None \<Rightarrow> [] | Some y \<Rightarrow> [y])"
  by (simp add: List.map_filter_def split: option.splits)

lemma set_map_filter: "set (List.map_filter f xs) = {y. \<exists>x \<in> set xs. f x = Some y}"
  by (force simp: List.map_filter_def image_iff)

lemma length_map_filter_nth:
  assumes "\<And>i. i < length ms \<Longrightarrow> (f i \<noteq> None) = P (ms ! i)"
  shows "length (List.map_filter f [0..<length ms]) = length (filter P ms)"
proof -
  have "length (List.map_filter f [0..<length ms])
        = length (filter (\<lambda>i. f i \<noteq> None) [0..<length ms])"
    by (simp add: List.map_filter_def)
  also have "filter (\<lambda>i. f i \<noteq> None) [0..<length ms] = filter (\<lambda>i. P (ms ! i)) [0..<length ms]"
    using assms by (intro filter_cong) auto
  also have "length \<dots> = length (filter P (map ((!) ms) [0..<length ms]))"
    by (simp add: filter_map comp_def)
  also have "map ((!) ms) [0..<length ms] = ms"
    by (rule map_nth)
  finally show ?thesis .
qed

lemma box_of_match_accepts:
  "(box_of_match t e ms i \<noteq> None) = (length (parse_coords (coords (ms ! i))) = 4)"
  by (simp add: box_of_match_def Let_def)

section \<open>Properties of binary64 rounding\<close>

lemma powi_mono: "i \<le> j \<Longrightarrow> (2::real) powi i \<le> 2 powi j"
  by (rule power_int_increasing) simp_all

lemma powi_strict_mono: "i < j \<Longrightarrow> (2::real) powi i < 2 powi j"
  by (rule power_int_strict_increasing) simp_all

lemma powi_pos: "0 < (2::real) powi i"
  by simp

lemma powi_Suc: "(2::real) powi (i + 1) = 2 * 2 powi i"
  by (simp add: power_int_add)

lemma exp_below_range: "- 1022 \<le> exp_below n a \<and> exp_below n a \<le> int n - 1022"
  by (induction n) auto

lemma exp_below_le: "exp_below n a \<noteq> - 1022 \<Longrightarrow> 2 powi (exp_below n a) \<le> a"
  by (induction n) (auto split: if_splits)

lemma exp_below_gt: "a < 2 powi (int n - 1021) \<Longrightarrow> a < 2 powi (exp_below n a + 1)"
proof (induction n)
  case 0
  then show ?case by simp
next
  case (Suc n)
  show ?case
  proof (cases "2 powi (int n - 1021) \<le> a")
    case True
    with Suc.prems show ?thesis by (simp add: algebra_simps)
  next
    case False
    with Suc.IH show ?thesis by simp
  qed
qed

lemma grid_exp_range: "- 1022 \<le> grid_exp x \<and> grid_exp x \<le> 1024"
  using exp_below_range [of 2046 "\<bar>x\<bar>"] by (simp add: grid_exp_def)

lemma grid_exp_le: "2 powi (- 1022) \<le> \<bar>x\<bar> \<Longrightarrow> 2 powi (grid_exp x) \<le> \<bar>x\<bar>"
  using exp_below_le [of 2046 "\<bar>x\<bar>"] by (cases "grid_exp x = - 1022") (auto simp: grid_exp_def)

lemma grid_exp_gt: "\<bar>x\<bar> < 2 powi 1025 \<Longrightarrow> \<bar>x\<bar> < 2 powi (grid_exp x + 1)"
  using exp_below_gt [of "\<bar>x\<bar>" 2046] by (simp add: grid_exp_def)

lemma grid_exp_unique:
  assumes "- 1022 \<le> e" "e \<le> 1024" "2 powi e \<le> \<bar>x\<bar>" "\<bar>x\<bar> < 2 powi (e + 1)"
  shows "grid_exp x = e"
proof -
  have lo: "2 powi (- 1022) \<le> \<bar>x\<bar>"
    using assms(1,3) powi_mono [of "- 1022" e] by linarith
  have hi: "\<bar>x\<bar> < 2 powi 1025"
    using assms(2,4) powi_mono [of "e + 1" 1025] by linarith
  let ?g = "grid_exp x"
  have "\<not> ?g < e"
  proof
    assume "?g < e"
    then have "2 powi (?g + 1) \<le> (2::real) powi e" by (intro powi_mono) simp
    with grid_exp_gt [OF hi] assms(3) show False by linarith
  qed
  moreover have "\<not> e < ?g"
  proof
    assume "e < ?g"
    then have "2 powi (e + 1) \<le> (2::real) powi ?g" by (intro powi_mono) simp
    with grid_exp_le [OF lo] assms(4) show False by linarith
  qed
  ultimately show ?thesis by simp
qed

lemma grid_exp_subnormal: "\<bar>x\<bar> < 2 powi (- 1021) \<Longrightarrow> grid_exp x = - 1022"
proof -
  assume a: "\<bar>x\<bar> < 2 powi (- 1021)"
  show ?thesis
  proof (rule ccontr)
    assume n: "grid_exp x \<noteq> - 1022"
    with grid_exp_range [of x] have "- 1021 \<le> grid_exp x" by simp
    then have "2 powi (- 1021) \<le> (2::real) powi (grid_exp x)" by (rule powi_mono)
    moreover from n have "2 powi (grid_exp x) \<le> \<bar>x\<bar>"
      using exp_below_le [of 2046 "\<bar>x\<bar>"] by (simp add: grid_exp_def)
    ultimately show False using a by linarith
  qed
qed

lemma grid_exp_minus [simp]: "grid_exp (- x) = grid_exp x"
  by (simp add: grid_exp_def)

lemma round_even_of_int [simp]: "round_even (of_int m) = m"
  by (simp add: round_even_def)

lemma round_even_bounds: "\<lfloor>t\<rfloor> \<le> round_even t \<and> round_even t \<le> \<lceil>t\<rceil>"
  by (auto simp: round_even_def Let_def ceiling_altdef)

lemma round_even_ge: "of_int m \<le> t \<Longrightarrow> m \<le> round_even t"
proof -
  assume "of_int m \<le> t"
  then have "m \<le> \<lfloor>t\<rfloor>" by (simp add: le_floor_iff)
  with round_even_bounds [of t] show ?thesis by linarith
qed

lemma round_even_le: "t \<le> of_int m \<Longrightarrow> round_even t \<le> m"
proof -
  assume "t \<le> of_int m"
  then have "\<lceil>t\<rceil> \<le> m" by (simp add: ceiling_le_iff)
  with round_even_bounds [of t] show ?thesis by linarith
qed

lemma round_even_minus: "round_even (- t) = - round_even t"
proof (cases "t = of_int \<lfloor>t\<rfloor>")
  case True
  define m where "m = \<lfloor>t\<rfloor>"
  with True have t: "t = of_int m" by simp
  show ?thesis unfolding t by (simp only: of_int_minus [symmetric] round_even_of_int)
next
  case False
  have lt: "of_int \<lfloor>t\<rfloor> < t"
  proof (rule le_neq_trans)
    show "of_int \<lfloor>t\<rfloor> \<le> t" by (rule of_int_floor_le)
    show "of_int \<lfloor>t\<rfloor> \<noteq> t" using False by (rule not_sym)
  qed
  have f: "\<lfloor>- t\<rfloor> = - \<lfloor>t\<rfloor> - 1"
  proof (rule floor_unique)
    show "of_int (- \<lfloor>t\<rfloor> - 1) \<le> - t" using floor_correct [of t] by simp linarith
    show "- t < of_int (- \<lfloor>t\<rfloor> - 1) + 1" using lt by simp
  qed
  show ?thesis
    unfolding round_even_def Let_def f
    by (auto simp: algebra_simps)
qed

lemma rnd_minus: "rnd (- x) = - rnd x"
  by (simp add: rnd_def Let_def round_even_minus)

lemma rnd_zero [simp]: "rnd 0 = 0"
  by (simp add: rnd_def Let_def round_even_def)

lemma rnd_representable:
  assumes "- 1074 \<le> k" and "\<bar>m\<bar> < 2 ^ 53"
  shows "rnd (of_int m * 2 powi k) = of_int m * 2 powi k"
proof -
  let ?x = "of_int m * (2::real) powi k"
  let ?g = "grid_exp ?x"
  have gk: "?g - 52 \<le> k"
  proof (cases "?g = - 1022")
    case True
    with assms(1) show ?thesis by simp
  next
    case False
    then have "2 powi ?g \<le> \<bar>?x\<bar>"
      using exp_below_le [of 2046 "\<bar>?x\<bar>"] by (simp add: grid_exp_def)
    also have "\<bar>?x\<bar> = of_int \<bar>m\<bar> * 2 powi k" by (simp add: abs_mult)
    also have "\<dots> < 2 ^ 53 * 2 powi k"
      using assms(2) by (intro mult_strict_right_mono) (simp_all flip: of_int_less_iff)
    also have "\<dots> = 2 powi (53 + k)" by (simp add: power_int_add)
    finally have "?g < 53 + k"
      using powi_mono [of "53 + k" ?g] by (cases "?g < 53 + k") auto
    then show ?thesis by simp
  qed
  define j where "j = nat (k - (?g - 52))"
  define q :: real where "q = 2 powi (?g - 52)"
  have q: "0 < q" by (simp add: q_def)
  from gk have "k = (?g - 52) + int j" by (simp add: j_def)
  then have "(2::real) powi k = 2 powi ((?g - 52) + int j)" by simp
  also have "\<dots> = q * 2 ^ j" by (simp add: power_int_add q_def)
  finally have pk: "(2::real) powi k = q * 2 ^ j" .
  have x: "?x = q * of_int (m * 2 ^ j)" unfolding pk by simp
  have d: "?x / q = of_int (m * 2 ^ j)" unfolding pk using q by simp
  have "rnd ?x = q * of_int (round_even (?x / q))"
    by (simp add: rnd_def Let_def q_def)
  also have "\<dots> = q * of_int (m * 2 ^ j)"
    by (simp only: d round_even_of_int)
  also have "\<dots> = ?x" by (simp only: x)
  finally show ?thesis .
qed

lemma rnd_representable_le:
  assumes "- 1074 \<le> k" and "\<bar>m\<bar> \<le> 2 ^ 53"
  shows "rnd (of_int m * 2 powi k) = of_int m * 2 powi k"
proof (cases "\<bar>m\<bar> < 2 ^ 53")
  case True
  with assms(1) show ?thesis by (rule rnd_representable)
next
  case False
  with assms(2) have "\<bar>m\<bar> = 2 ^ 53" by simp
  then consider "m = 2 ^ 53" | "m = - (2 ^ 53)" by linarith
  then show ?thesis
  proof cases
    case 1
    have "of_int m * (2::real) powi k = of_int 1 * 2 powi (k + 53)"
      unfolding 1 by (simp add: power_int_add)
    moreover have "rnd (of_int 1 * 2 powi (k + 53)) = of_int 1 * 2 powi (k + 53)"
      using assms(1) by (intro rnd_representable) simp_all
    ultimately show ?thesis by simp
  next
    case 2
    have "of_int m * (2::real) powi k = of_int (- 1) * 2 powi (k + 53)"
      unfolding 2 by (simp add: power_int_add)
    moreover have "rnd (of_int (- 1) * 2 powi (k + 53)) = of_int (- 1) * 2 powi (k + 53)"
      using assms(1) by (intro rnd_representable) simp_all
    ultimately show ?thesis by simp
  qed
qed

lemma rnd_form:
  assumes "\<bar>x\<bar> < 2 powi 1025"
  shows "\<bar>round_even (x / 2 powi (grid_exp x - 52))\<bar> \<le> 2 ^ 53"
proof -
  let ?q = "(2::real) powi (grid_exp x - 52)"
  define t where "t = x / ?q"
  define c :: int where "c = 2 ^ 53"
  have q: "0 < ?q" by simp
  have "\<bar>x\<bar> < 2 powi (grid_exp x + 1)" using assms by (rule grid_exp_gt)
  also have "\<dots> = ?q * 2 ^ 53"
    by (simp add: power_int_add power_int_diff)
  finally have "\<bar>x\<bar> / ?q < 2 ^ 53" using q by (simp add: field_simps)
  then have "\<bar>t\<bar> < of_int c" by (simp add: abs_divide t_def c_def)
  then have "t \<le> of_int c" and "of_int (- c) \<le> t" by linarith+
  from round_even_le [OF this(1)] round_even_ge [OF this(2)]
  have "\<bar>round_even t\<bar> \<le> c" by linarith
  then show ?thesis by (simp only: t_def c_def)
qed

lemma rnd_scaled:
  assumes "\<bar>x\<bar> < 2 powi 1025"
  shows "rnd (rnd x) = rnd x" and "rnd (2 * rnd x) = 2 * rnd x"
proof -
  let ?g = "grid_exp x"
  let ?n = "round_even (x / 2 powi (?g - 52))"
  have n: "\<bar>?n\<bar> \<le> 2 ^ 53" using assms by (rule rnd_form)
  have g: "- 1022 \<le> ?g" using grid_exp_range [of x] by simp
  have r: "rnd x = of_int ?n * 2 powi (?g - 52)" by (simp add: rnd_def Let_def)
  have "rnd (of_int ?n * 2 powi (?g - 52)) = of_int ?n * 2 powi (?g - 52)"
    using g n by (intro rnd_representable_le) simp_all
  then show "rnd (rnd x) = rnd x" by (simp only: r)
  have "2 * rnd x = of_int ?n * 2 powi (?g - 51)"
    unfolding r using powi_Suc [of "?g - 52"] by (simp add: algebra_simps)
  moreover have "rnd (of_int ?n * 2 powi (?g - 51)) = of_int ?n * 2 powi (?g - 51)"
    using g n by (intro rnd_representable_le) simp_all
  ultimately show "rnd (2 * rnd x) = 2 * rnd x" by simp
qed

lemma rnd_double:
  assumes "2 powi (- 1022) \<le> \<bar>y\<bar>" and "\<bar>y\<bar> < 2 powi 1024"
  shows "rnd (2 * y) = 2 * rnd y"
proof -
  let ?g = "grid_exp y"
  have lo: "2 powi ?g \<le> \<bar>y\<bar>" using assms(1) by (rule grid_exp_le)
  have hi: "\<bar>y\<bar> < 2 powi (?g + 1)"
    using assms(2) powi_mono [of 1024 1025] by (intro grid_exp_gt) linarith
  have "?g < 1024"
    using lo assms(2) powi_mono [of 1024 ?g] by (cases "?g < 1024") auto
  then have "grid_exp (2 * y) = ?g + 1"
    using lo hi grid_exp_range [of y]
    by (intro grid_exp_unique) (simp_all add: power_int_add abs_mult)
  then have q: "(2::real) powi (grid_exp (2 * y) - 52) = 2 * 2 powi (?g - 52)"
    using powi_Suc [of "?g - 52"] by (simp add: algebra_simps)
  show ?thesis
    unfolding rnd_def Let_def q by simp
qed

lemma grid_exp_top: "2 powi 1024 \<le> \<bar>y\<bar> \<Longrightarrow> grid_exp y = 1024"
proof -
  assume a: "2 powi 1024 \<le> \<bar>y\<bar>"
  have n: "(2046::nat) = Suc 2045" by simp
  show ?thesis unfolding grid_exp_def n exp_below.simps using a by simp
qed

lemma rnd_nonneg: "0 \<le> x \<Longrightarrow> 0 \<le> rnd x"
proof -
  assume "0 \<le> x"
  then have "of_int 0 \<le> x / 2 powi (grid_exp x - 52)" by simp
  from round_even_ge [OF this] show ?thesis by (simp add: rnd_def Let_def)
qed

lemma rnd_lower:
  assumes "2 powi (- 1022) \<le> y"
  shows "2 powi (grid_exp y) \<le> rnd y"
proof -
  let ?g = "grid_exp y"
  let ?q = "(2::real) powi (?g - 52)"
  have y: "0 < y" using assms powi_pos [of "- 1022"] by linarith
  have "2 powi ?g \<le> \<bar>y\<bar>" using assms y by (intro grid_exp_le) simp
  then have "2 powi ?g / ?q \<le> y / ?q" using y by (simp add: divide_right_mono)
  moreover have "2 powi ?g / ?q = of_int (2 ^ 52)"
    by (simp add: power_int_diff)
  ultimately have "2 ^ 52 \<le> round_even (y / ?q)"
    by (intro round_even_ge) simp
  then have le: "?q * of_int (2 ^ 52) \<le> ?q * of_int (round_even (y / ?q))"
    by (intro mult_left_mono) simp_all
  have "2 powi ?g = ?q * of_int (2 ^ 52)"
    by (simp add: power_int_diff)
  also note le
  also have "?q * of_int (round_even (y / ?q)) = rnd y"
    by (simp only: rnd_def Let_def)
  finally show ?thesis .
qed

lemma rnd_overflow: "2 powi 1024 \<le> y \<Longrightarrow> 2 ^ 1024 \<le> rnd y"
proof -
  assume a: "2 powi 1024 \<le> y"
  then have "2 powi (- 1022) \<le> y" using powi_mono [of "- 1022" 1024] by linarith
  from rnd_lower [OF this] grid_exp_top [of y] a show ?thesis by simp
qed

lemma to_binary64_zero [simp]: "to_binary64 s 0 = signed_zero s"
  by (simp add: to_binary64_def signed_zero_def)

lemma to_binary64_exact:
  "rnd y = y \<Longrightarrow> y \<noteq> 0 \<Longrightarrow> \<bar>y\<bar> < 2 ^ 1024 \<Longrightarrow> to_binary64 s y = Num y"
  by (simp add: to_binary64_def)

lemma sign_bit_zero [simp]: "sign_bit (signed_zero s) = s"
  by (simp add: signed_zero_def)

lemma finite_value_zero [simp]: "finite_value (signed_zero s) = 0"
  by (simp add: signed_zero_def)

lemma rnd_sign:
  assumes "rnd y \<noteq> 0"
  shows "(rnd y < 0) = (y < 0)"
proof (cases "0 \<le> y")
  case True
  with rnd_nonneg [of y] show ?thesis by simp
next
  case False
  then have "0 \<le> rnd (- y)" by (intro rnd_nonneg) simp
  with assms False show ?thesis by (simp add: rnd_minus)
qed

lemma rnd_abs: "\<bar>rnd y\<bar> = rnd \<bar>y\<bar>"
proof (cases "0 \<le> y")
  case True
  with rnd_nonneg [of y] show ?thesis by simp
next
  case False
  then have "0 \<le> rnd (- y)" by (intro rnd_nonneg) simp
  with False show ?thesis by (simp add: rnd_minus abs_if)
qed

lemma rnd_abs_lower: "2 powi (- 1022) \<le> \<bar>y\<bar> \<Longrightarrow> 2 powi (grid_exp y) \<le> \<bar>rnd y\<bar>"
  using rnd_lower [of "\<bar>y\<bar>"] by (simp add: rnd_abs grid_exp_def)

lemma rnd_abs_overflow: "2 powi 1024 \<le> \<bar>y\<bar> \<Longrightarrow> 2 ^ 1024 \<le> \<bar>rnd y\<bar>"
  using rnd_overflow [of "\<bar>y\<bar>"] by (simp add: rnd_abs)

text \<open>The finite case: the value and sign of a doubled binary64 dimension.\<close>

lemma double_finite:
  assumes "rnd b = b" and "\<bar>2 * b\<bar> < 2 ^ 1024"
  shows "to_binary64 s (2 * b) = (if b = 0 then signed_zero s else Num (2 * b))"
proof (cases "b = 0")
  case True
  then show ?thesis by simp
next
  case False
  from assms(2) have "\<bar>b\<bar> < 2 powi 1025" by simp
  from rnd_scaled(2) [OF this] assms(1) have "rnd (2 * b) = 2 * b" by simp
  with False assms(2) show ?thesis by (simp add: to_binary64_exact)
qed

lemma product_double:
  assumes "normal_or_zero y"
  shows "to_binary64 s (2 * y)
         = (let p = to_binary64 s y
            in if p = NaN then NaN
               else if is_infinite p then signed_infinity (sign_bit p)
               else to_binary64 (sign_bit p) (2 * finite_value p))"
proof (cases "y = 0")
  case True
  then show ?thesis by (simp add: Let_def signed_zero_def is_infinite_def)
next
  case False
  with assms have lo: "2 powi (- 1022) \<le> \<bar>y\<bar>" by (simp add: normal_or_zero_def)
  let ?r = "rnd y"
  have "(0::real) < 2 powi (grid_exp y)" by simp
  with rnd_abs_lower [OF lo] have "0 < \<bar>?r\<bar>" by linarith
  then have r0: "?r \<noteq> 0" by simp
  have sg: "(?r < 0) = (y < 0)" using r0 by (rule rnd_sign)
  show ?thesis
  proof (cases "\<bar>y\<bar> < 2 powi 1024")
    case True
    have d: "rnd (2 * y) = 2 * ?r" using lo True by (rule rnd_double)
    have "\<bar>y\<bar> < 2 powi 1025" using True powi_mono [of 1024 1025] by linarith
    from rnd_scaled(2) [OF this] have i: "rnd (2 * ?r) = 2 * ?r" .
    show ?thesis
      using r0 d i by (auto simp: to_binary64_def Let_def is_infinite_def signed_infinity_def)
  next
    case False
    then have hi: "2 powi 1024 \<le> \<bar>y\<bar>" by simp
    then have "2 powi 1024 \<le> \<bar>2 * y\<bar>" by simp
    from rnd_abs_overflow [OF this] rnd_abs_overflow [OF hi]
    have o2: "2 ^ 1024 \<le> \<bar>rnd (2 * y)\<bar>" and o1: "2 ^ 1024 \<le> \<bar>?r\<bar>" .
    then have "rnd (2 * y) \<noteq> 0" by auto
    from rnd_sign [OF this] have "(rnd (2 * y) < 0) = (y < 0)" by simp
    with o1 o2 sg r0 show ?thesis
      by (auto simp: to_binary64_def Let_def is_infinite_def signed_infinity_def)
  qed
qed

lemma js_mul_two:
  "js_mul (Num 2) p
   = (if p = NaN then NaN
      else if is_infinite p then signed_infinity (sign_bit p)
      else to_binary64 (sign_bit p) (2 * finite_value p))"
  by (simp add: js_mul_def is_infinite_def is_zero_def)

lemma double_dimension:
  assumes "is_binary64 d" and "is_infinite (js_mul (Num 2) d) \<longrightarrow> is_infinite d"
    and "d \<noteq> NaN" and "\<not> is_infinite d"
  shows "js_mul (Num 2) d = (if finite_value d = 0 then d else Num (2 * finite_value d))"
proof (cases d)
  case (Num b)
  with assms(1) have b: "rnd b = b" and "\<bar>b\<bar> < 2 ^ 1024" by (simp_all add: is_binary64_def)
  then have "\<bar>b\<bar> < 2 powi 1025" by simp
  from rnd_scaled(2) [OF this] b have r: "rnd (2 * b) = 2 * b" by simp
  show ?thesis
  proof (cases "b = 0")
    case True
    with Num show ?thesis by (simp add: js_mul_two is_infinite_def signed_zero_def)
  next
    case False
    from assms(2) Num r False have "\<bar>2 * b\<bar> < 2 ^ 1024"
      by (auto simp: js_mul_two to_binary64_def Let_def is_infinite_def split: if_splits)
    with r False Num show ?thesis
      by (simp add: js_mul_two is_infinite_def to_binary64_exact)
  qed
next
  case NegZero
  then show ?thesis by (simp add: js_mul_two is_infinite_def signed_zero_def)
qed (use assms in \<open>simp_all add: is_infinite_def\<close>)

lemma js_mul_double:
  assumes "is_binary64 d" and "is_infinite (js_mul (Num 2) d) \<longrightarrow> is_infinite d"
    and "normal_or_zero (finite_value x * finite_value d)"
  shows "js_mul x (js_mul (Num 2) d) = js_mul (Num 2) (js_mul x d)"
proof (cases "d = NaN \<or> is_infinite d")
  case True
  then show ?thesis
    by (cases x) (auto simp: js_mul_def is_infinite_def is_zero_def signed_infinity_def)
next
  case False
  then have dn: "d \<noteq> NaN" and di: "\<not> is_infinite d" by simp_all
  from double_dimension [OF assms(1,2) dn di]
  have d2: "js_mul (Num 2) d = (if finite_value d = 0 then d else Num (2 * finite_value d))" .
  have s2: "sign_bit (js_mul (Num 2) d) = sign_bit d"
    unfolding d2 using dn di by (cases d) (auto simp: is_infinite_def)
  have v2: "finite_value (js_mul (Num 2) d) = 2 * finite_value d"
    unfolding d2 by simp
  have f2: "js_mul (Num 2) d \<noteq> NaN \<and> \<not> is_infinite (js_mul (Num 2) d)"
    unfolding d2 using dn di by (auto simp: is_infinite_def)
  have z2: "is_zero (js_mul (Num 2) d) = is_zero d"
    unfolding d2 using dn di by (cases d) (auto simp: is_zero_def is_infinite_def)
  show ?thesis
  proof (cases "x = NaN \<or> is_infinite x")
    case True
    then show ?thesis
      using f2 z2 s2 dn di
      by (auto simp: js_mul_def [of x] js_mul_two is_infinite_def signed_infinity_def)
  next
    case False
    let ?s = "sign_bit x \<noteq> sign_bit d"
    from False dn di have l: "js_mul x d = to_binary64 ?s (finite_value x * finite_value d)"
      by (simp add: js_mul_def)
    from False f2 have "js_mul x (js_mul (Num 2) d)
        = to_binary64 ?s (finite_value x * (2 * finite_value d))"
      by (simp add: js_mul_def [of x] s2 v2)
    also have "\<dots> = to_binary64 ?s (2 * (finite_value x * finite_value d))" by (simp add: mult.left_commute)
    also have "\<dots> = js_mul (Num 2) (to_binary64 ?s (finite_value x * finite_value d))"
      using product_double [OF assms(3), of ?s] by (simp add: js_mul_two Let_def)
    finally show ?thesis by (simp only: l)
  qed
qed

lemma exp_below_mono: "a \<le> b \<Longrightarrow> exp_below n a \<le> exp_below n b"
proof (induction n)
  case 0
  show ?case by simp
next
  case (Suc n)
  from exp_below_range [of n a] have "exp_below n a \<le> int n - 1021" by simp
  with Suc show ?case by auto
qed

lemma grid_exp_mono: "\<bar>a\<bar> \<le> \<bar>b\<bar> \<Longrightarrow> grid_exp a \<le> grid_exp b"
  by (simp add: grid_exp_def exp_below_mono)

lemma round_even_gt_half: "of_int m + 1 / 2 < t \<Longrightarrow> m + 1 \<le> round_even t"
proof -
  assume a: "of_int m + 1 / 2 < t"
  then have "of_int m \<le> t" by simp
  then have f: "m \<le> \<lfloor>t\<rfloor>" by (simp add: le_floor_iff)
  show ?thesis
  proof (cases "m = \<lfloor>t\<rfloor>")
    case True
    with a show ?thesis by (simp add: round_even_def Let_def)
  next
    case False
    with f have "m + 1 \<le> \<lfloor>t\<rfloor>" by simp
    with round_even_bounds [of t] show ?thesis by linarith
  qed
qed

text \<open>Rounding never falls below a representable value that the exact value reaches.\<close>

lemma rnd_ge_representable:
  assumes "0 < r" and "rnd r = r" and "r \<le> y"
  shows "r \<le> rnd y"
proof -
  let ?g = "grid_exp y" and ?h = "grid_exp r"
  let ?q = "(2::real) powi (?g - 52)"
  from assms have y: "0 < y" by simp
  have hg: "?h \<le> ?g" using assms(1,3) by (intro grid_exp_mono) simp
  show ?thesis
  proof (cases "?h = ?g")
    case True
    define N where "N = round_even (r / ?q)"
    have r: "r = ?q * of_int N"
      using assms(2) by (simp add: rnd_def Let_def True N_def)
    then have "r / ?q = of_int N" by simp
    moreover have "r / ?q \<le> y / ?q" using assms(3) by (simp add: divide_right_mono)
    ultimately have "N \<le> round_even (y / ?q)" by (intro round_even_ge) simp
    then have "?q * of_int N \<le> ?q * of_int (round_even (y / ?q))"
      by (intro mult_left_mono) simp_all
    then show ?thesis by (simp add: rnd_def Let_def flip: r)
  next
    case False
    with hg have lt: "?h < ?g" by simp
    with grid_exp_range [of r] have "?g \<noteq> - 1022" by simp
    then have "2 powi ?g \<le> \<bar>y\<bar>"
      using exp_below_le [of 2046 "\<bar>y\<bar>"] by (simp add: grid_exp_def)
    with y have gy: "2 powi ?g \<le> y" by simp
    moreover have "2 powi (- 1022) \<le> (2::real) powi ?g"
      using grid_exp_range [of y] by (intro powi_mono) simp
    ultimately have "2 powi (- 1022) \<le> y" by linarith
    from rnd_lower [OF this] have l: "2 powi ?g \<le> rnd y" .
    have "\<bar>r\<bar> < 2 powi 1025"
    proof (rule ccontr)
      assume "\<not> \<bar>r\<bar> < 2 powi 1025"
      then have "2 powi 1024 \<le> \<bar>r\<bar>" using powi_mono [of 1024 1025] by linarith
      from grid_exp_top [OF this] lt grid_exp_range [of y] show False by simp
    qed
    from grid_exp_gt [OF this] assms(1) have "r < 2 powi (?h + 1)" by simp
    also have "\<dots> \<le> 2 powi ?g" using lt by (intro powi_mono) simp
    finally show ?thesis using l by linarith
  qed
qed

lemma rnd_smallest: "rnd (2 powi (- 1074)) = 2 powi (- 1074)"
  using rnd_representable [of "- 1074" 1] by simp

lemma rnd_le_neg_smallest:
  assumes "y \<le> - (2 powi (- 1074))"
  shows "rnd y \<le> - (2 powi (- 1074))"
proof -
  have "2 powi (- 1074) \<le> rnd (- y)"
    using assms by (intro rnd_ge_representable rnd_smallest) simp_all
  then show ?thesis by (simp add: rnd_minus)
qed

lemma next_above:
  assumes "rnd w = w" and "1 \<le> w" and "w < 2 ^ 1024"
  shows "rnd (w + 2 powi (grid_exp w - 52)) = w + 2 powi (grid_exp w - 52)"
    and "2 powi (grid_exp w - 52) \<le> w * 2 powi (- 52)"
proof -
  let ?g = "grid_exp w"
  let ?q = "(2::real) powi (?g - 52)"
  define N where "N = round_even (w / ?q)"
  have w: "w = ?q * of_int N"
    using assms(1) by (simp add: rnd_def Let_def N_def)
  have small: "\<bar>w\<bar> < 2 powi 1025" using assms(2,3) by simp
  have lo: "2 powi (- 1022) \<le> \<bar>w\<bar>"
  proof -
    have "2 powi (- 1022) \<le> (2::real) powi 0" by (rule powi_mono) simp
    with assms(2) show ?thesis by simp
  qed
  have "\<bar>w\<bar> < 2 powi (?g + 1)" using small by (rule grid_exp_gt)
  also have "\<dots> = ?q * 2 ^ 53" by (simp add: power_int_add power_int_diff)
  finally have "?q * of_int N < ?q * of_int (2 ^ 53)" using assms(2) w by simp
  then have "N < 2 ^ 53" by (simp only: mult_less_cancel_left_pos [OF powi_pos] of_int_less_iff)
  moreover have "0 \<le> N"
  proof -
    have "of_int 0 \<le> w / ?q" using assms(2) by simp
    then show ?thesis unfolding N_def by (rule round_even_ge)
  qed
  ultimately have n: "\<bar>N + 1\<bar> \<le> 2 ^ 53" by simp
  have "w + ?q = of_int (N + 1) * ?q" by (subst w) (simp add: algebra_simps)
  moreover have "rnd (of_int (N + 1) * ?q) = of_int (N + 1) * ?q"
    using n grid_exp_range [of w] by (intro rnd_representable_le) simp_all
  ultimately show "rnd (w + ?q) = w + ?q" by simp
  have "2 powi ?g \<le> \<bar>w\<bar>" using lo by (rule grid_exp_le)
  then have "2 powi ?g * 2 powi (- 52) \<le> w * 2 powi (- 52)"
    using assms(2) by (intro mult_right_mono) simp_all
  then show "?q \<le> w * 2 powi (- 52)" by (simp add: power_int_diff power_int_minus field_simps)
qed

lemma scaled_above:
  assumes "1 + 2 powi (- 52) \<le> a" and "rnd w = w" and "1 \<le> w" and "w < 2 ^ 1024"
  shows "w < rnd (a * w)"
proof -
  let ?q = "(2::real) powi (grid_exp w - 52)"
  have "w + ?q \<le> w + w * 2 powi (- 52)"
    using next_above(2) [OF assms(2-4)] by simp
  also have "\<dots> = (1 + 2 powi (- 52)) * w" by (simp add: algebra_simps)
  also have "\<dots> \<le> a * w" using assms(1,3) by (intro mult_right_mono) simp_all
  finally have "w + ?q \<le> a * w" .
  moreover have "0 < w + ?q" using assms(3) powi_pos [of "grid_exp w - 52"] by linarith
  ultimately have "w + ?q \<le> rnd (a * w)"
    using next_above(1) [OF assms(2-4)] by (intro rnd_ge_representable) simp_all
  with powi_pos [of "grid_exp w - 52"] show ?thesis by linarith
qed

lemma above_999:
  assumes "rnd v = v" and "999 < v"
  shows "999 + 2 powi (- 43) \<le> v"
proof (cases "v < 1024")
  case False
  have "(2::real) powi (- 43) \<le> 2 powi 0" by (rule powi_mono) simp
  with False show ?thesis by simp
next
  case True
  have g: "grid_exp v = 9"
    using assms(2) True by (intro grid_exp_unique) simp_all
  let ?q = "(2::real) powi (- 43)"
  define N where "N = round_even (v / ?q)"
  have v: "v = ?q * of_int N"
    using assms(1) by (simp add: rnd_def Let_def N_def g)
  have q: "(999::real) = ?q * of_int (999 * 2 ^ 43)"
    by (simp add: power_int_minus)
  from assms(2) have "?q * of_int (999 * 2 ^ 43) < ?q * of_int N"
    by (simp only: flip: v q)
  then have "999 * 2 ^ 43 < N"
    by (simp only: mult_less_cancel_left_pos [OF powi_pos] of_int_less_iff)
  then have "999 * 2 ^ 43 + 1 \<le> N" by simp
  then have "?q * of_int (999 * 2 ^ 43 + 1) \<le> ?q * of_int N"
    by (intro mult_left_mono) (simp_all only: of_int_le_iff, simp)
  also have "?q * of_int (999 * 2 ^ 43 + 1) = 999 + ?q"
    by (simp add: power_int_minus algebra_simps)
  finally show ?thesis by (simp only: flip: v)
qed

lemma quotient_above_one:
  assumes "rnd v = v" and "999 < v"
  shows "1 + 2 powi (- 52) \<le> rnd (v / 999)"
proof -
  let ?y = "v / 999"
  let ?r = "1 + (2::real) powi (- 52)"
  have r: "rnd ?r = ?r"
  proof -
    have "?r = of_int (2 ^ 52 + 1) * 2 powi (- 52)"
      by (simp add: power_int_minus algebra_simps)
    moreover have "rnd (of_int (2 ^ 52 + 1) * 2 powi (- 52)) = of_int (2 ^ 52 + 1) * 2 powi (- 52)"
      by (intro rnd_representable) simp_all
    ultimately show ?thesis by simp
  qed
  show ?thesis
  proof (cases "?r \<le> ?y")
    case True
    then show ?thesis using r by (intro rnd_ge_representable) simp_all
  next
    case False
    have y: "1 + 2 powi (- 43) / 999 \<le> ?y"
      using above_999 [OF assms] by (simp add: field_simps)
    have "?r \<le> 2" by (simp add: power_int_minus)
    with False have y2: "?y < 2" by linarith
    have g: "grid_exp ?y = 0"
      using assms(2) y2 by (intro grid_exp_unique) simp_all
    have "of_int (2 ^ 52) + 1 / 2 < (1 + 2 powi (- 43) / 999) / (2::real) powi (- 52)"
      by (simp add: power_int_minus field_simps)
    also have "\<dots> \<le> ?y / 2 powi (- 52)" using y by (intro divide_right_mono) simp_all
    finally have "2 ^ 52 + 1 \<le> round_even (?y / 2 powi (- 52))"
      by (rule round_even_gt_half)
    then have "(2::real) powi (- 52) * of_int (2 ^ 52 + 1) \<le> 2 powi (- 52) * of_int (round_even (?y / 2 powi (- 52)))"
      by (intro mult_left_mono) (simp_all only: of_int_le_iff, simp)
    moreover have "(2::real) powi (- 52) * of_int (2 ^ 52 + 1) = ?r"
      by (simp add: power_int_minus algebra_simps)
    ultimately show ?thesis by (simp add: rnd_def Let_def g)
  qed
qed

lemma to_binary64_positive:
  assumes "0 < rnd y"
  shows "to_binary64 s y = PosInfinity \<or> to_binary64 s y = Num (rnd y)"
  using assms by (auto simp: to_binary64_def Let_def)

lemma to_binary64_negative:
  assumes "rnd y < 0"
  shows "to_binary64 s y = NegInfinity \<or> to_binary64 s y = Num (rnd y)"
  using assms by (auto simp: to_binary64_def Let_def)

lemma project_above:
  assumes "rnd v = v" and "999 < v" and "rnd w = w" and "1 \<le> w" and "w < 2 ^ 1024"
  shows "js_mul (js_div (Num v) DEEPSEEK_COORD_MAX) (Num w) = PosInfinity
    \<or> (\<exists>p. js_mul (js_div (Num v) DEEPSEEK_COORD_MAX) (Num w) = Num p \<and> w < p)"
proof -
  let ?a = "rnd (v / 999)"
  have a: "1 + 2 powi (- 52) \<le> ?a" using assms(1,2) by (rule quotient_above_one)
  have "(0::real) < 2 powi (- 52)" by simp
  with a have a0: "0 < ?a" by linarith
  have d: "js_div (Num v) DEEPSEEK_COORD_MAX = to_binary64 False (v / 999)"
    using assms(2) by (simp add: js_div_def DEEPSEEK_COORD_MAX_def is_infinite_def is_zero_def)
  from to_binary64_positive [OF a0, of False]
  show ?thesis
  proof
    assume "to_binary64 False (v / 999) = PosInfinity"
    with d assms(4) show ?thesis
      by (simp add: js_mul_def is_infinite_def is_zero_def signed_infinity_def)
  next
    assume n: "to_binary64 False (v / 999) = Num ?a"
    have gt: "w < rnd (?a * w)" using a assms(3-5) by (rule scaled_above)
    with assms(4) have "0 < rnd (?a * w)" by linarith
    from to_binary64_positive [OF this, of False] gt d n a0 assms(4) show ?thesis
      by (auto simp: js_mul_def is_infinite_def)
  qed
qed

lemma project_below:
  assumes "v \<le> - (2 powi (- 1022))" and "1 \<le> w"
  shows "js_mul (js_div (Num v) DEEPSEEK_COORD_MAX) (Num w) = NegInfinity
    \<or> (\<exists>p. js_mul (js_div (Num v) DEEPSEEK_COORD_MAX) (Num w) = Num p \<and> p < 0)"
proof -
  let ?a = "rnd (v / 999)"
  let ?e = "(2::real) powi (- 1074)"
  have e: "0 < ?e" by simp
  have v0: "v < 0" using assms(1) powi_pos [of "- 1022"] by linarith
  have "?e * 999 \<le> 2 powi (- 1074) * 2 powi 10" by (intro mult_left_mono) simp_all
  also have "\<dots> = 2 powi (- 1064)" by (simp flip: power_int_add)
  also have "\<dots> \<le> 2 powi (- 1022)" by (rule powi_mono) simp
  finally have "v \<le> - (?e * 999)" using assms(1) by linarith
  then have "v / 999 \<le> - ?e" by (simp add: field_simps)
  then have a: "?a \<le> - ?e" by (rule rnd_le_neg_smallest)
  with e have a0: "?a < 0" by linarith
  have d: "js_div (Num v) DEEPSEEK_COORD_MAX = to_binary64 True (v / 999)"
    using v0 by (simp add: js_div_def DEEPSEEK_COORD_MAX_def is_infinite_def is_zero_def)
  from to_binary64_negative [OF a0, of True]
  show ?thesis
  proof
    assume "to_binary64 True (v / 999) = NegInfinity"
    with d assms(2) show ?thesis
      by (simp add: js_mul_def is_infinite_def is_zero_def signed_infinity_def)
  next
    assume n: "to_binary64 True (v / 999) = Num ?a"
    have "?a * w \<le> ?a * 1" using a0 assms(2) by (intro mult_left_mono_neg) simp_all
    then have "?a * w \<le> ?a" by (simp only: mult_1_right)
    from this a have "?a * w \<le> - ?e" by (rule order_trans)
    then have "rnd (?a * w) \<le> - ?e" by (rule rnd_le_neg_smallest)
    with e have "rnd (?a * w) < 0" by linarith
    from to_binary64_negative [OF this, of True] this d n a0 assms(2) show ?thesis
      by (auto simp: js_mul_def is_infinite_def)
  qed
qed

lemma rnd_of_int: "\<bar>m\<bar> < 2 ^ 53 \<Longrightarrow> rnd (of_int m) = of_int m"
  using rnd_representable [of 0 m] by simp

lemma rnd_numeral [simp]: "numeral k < (2::int) ^ 53 \<Longrightarrow> rnd (numeral k) = numeral k"
  using rnd_of_int [of "numeral k"] by simp

lemma rnd_one [simp]: "rnd 1 = 1"
  using rnd_of_int [of 1] by simp

lemma to_binary64_numeral [simp]:
  "numeral k < (2::int) ^ 53 \<Longrightarrow> to_binary64 s (numeral k) = Num (numeral k)"
proof -
  assume a: "numeral k < (2::int) ^ 53"
  have "(2::int) ^ 53 \<le> 2 ^ 1024" by (rule power_increasing) simp_all
  with a have "(numeral k :: int) < 2 ^ 1024" by linarith
  then have "(of_int (numeral k) :: real) < of_int (2 ^ 1024)" by (simp only: of_int_less_iff)
  then have "\<bar>numeral k :: real\<bar> < 2 ^ 1024" by simp
  with a show ?thesis by (simp add: to_binary64_exact)
qed

lemma to_binary64_one [simp]: "to_binary64 s 1 = Num 1"
  by (simp add: to_binary64_exact)

lemma rnd_power_two: "rnd (2 ^ n) = 2 ^ n"
  using rnd_representable [of "int n" 1] by (simp add: power_int_def)

section \<open>Evaluation on examples\<close>

lemmas string_eval = lit_def cu_def is_white_space_def trim_def substring_def substring_from_def
lemmas regex_eval = match_at_def exec_def to_match_data_def
lemmas number_eval = parse_coords_def parseFloat_def str_unsigned_decimal_def exponent_part_def
  scale10_def digits_value_def is_digit_def isNaN_def signed_zero_def

lemma collect_matches_one:
  assumes "exec t 0 = (Some m, a)" and "exec t a = (None, 0)"
  shows "collect_matches t 0 [] = ([to_match_data m], 0)"
  using assms by (simp add: collect_matches_Some collect_matches_None)

lemma collect_matches_two:
  assumes "exec t 0 = (Some m, a)" and "exec t a = (Some n, b)" and "exec t b = (None, 0)"
  shows "collect_matches t 0 [] = ([to_match_data m, to_match_data n], 0)"
  using assms by (simp add: collect_matches_Some collect_matches_None)

lemma collect_matches_none:
  assumes "exec t 0 = (None, 0)"
  shows "collect_matches t 0 [] = ([], 0)"
  using assms by (simp add: collect_matches_None)

lemma single_example_matches:
  "collect_matches (lit ''<|ref|>title<|/ref|><|det|>[[0,0,100,50]]<|/det|>Hello'') 0 []
   = ([\<lparr>mcontent = lit ''title'', coords = lit ''0,0,100,50'', matchStart = 0, matchEnd = 49\<rparr>], 0)"
proof -
  have 1: "exec (lit ''<|ref|>title<|/ref|><|det|>[[0,0,100,50]]<|/det|>Hello'') 0
     = (Some \<lparr>capture1 = lit ''title'', capture2 = lit ''0,0,100,50'', index = 0, length0 = 49\<rparr>, 49)"
    by (simp add: string_eval regex_eval)
  have 2: "exec (lit ''<|ref|>title<|/ref|><|det|>[[0,0,100,50]]<|/det|>Hello'') 49 = (None, 0)"
    by (simp add: string_eval regex_eval)
  from collect_matches_one [OF 1 2] show ?thesis
    by (simp add: string_eval regex_eval)
qed

lemma unpiped_example_matches:
  "collect_matches (lit ''<ref>title</ref><det>[[0,0,100,50]]</det>Hello'') 0 [] = ([], 0)"
  by (rule collect_matches_none) (simp add: string_eval regex_eval)

lemma single_example_coords:
  "parse_coords (lit ''0,0,100,50'') = [Num 0, Num 0, Num 100, Num 50]"
  by (simp add: string_eval number_eval)

lemma single_example_boxes:
  "parseBoxesFromTokens (lit ''<|ref|>title<|/ref|><|det|>[[0,0,100,50]]<|/det|>Hello'') e
   = [\<lparr>content = lit ''title'', textContent = lit ''Hello'', isType = True, type = lit ''title'',
       x1 = Num 0, y1 = Num 0, x2 = Num 100, y2 = Num 50, isComplete = e\<rparr>]"
proof -
  have "box_of_match (lit ''<|ref|>title<|/ref|><|det|>[[0,0,100,50]]<|/det|>Hello'') e
          [\<lparr>mcontent = lit ''title'', coords = lit ''0,0,100,50'', matchStart = 0, matchEnd = 49\<rparr>] 0
        = Some \<lparr>content = lit ''title'', textContent = lit ''Hello'', isType = True, type = lit ''title'',
       x1 = Num 0, y1 = Num 0, x2 = Num 100, y2 = Num 50, isComplete = e\<rparr>"
    by (simp add: box_of_match_def single_example_coords KNOWN_TYPES_def Let_def)
       (simp add: string_eval)
  then show ?thesis
    by (simp add: parseBoxesFromTokens_def single_example_matches List.map_filter_simps)
qed

lemma unpiped_example_boxes:
  "parseBoxesFromTokens (lit ''<ref>title</ref><det>[[0,0,100,50]]</det>Hello'') e = []"
  by (simp add: parseBoxesFromTokens_def unpiped_example_matches List.map_filter_simps)

section \<open>Auxiliary facts about the parser, the renderer and the live update\<close>

lemma pair_example_matches:
  "collect_matches (lit ''<|ref|>title<|/ref|><|det|>[[0,0,10,10]]<|/det|>FOO<|ref|>text<|/ref|><|det|>[[0,0,20,20]]<|/det|>BAR'') 0 []
   = ([\<lparr>mcontent = lit ''title'', coords = lit ''0,0,10,10'', matchStart = 0, matchEnd = 48\<rparr>,
      \<lparr>mcontent = lit ''text'', coords = lit ''0,0,20,20'', matchStart = 51, matchEnd = 98\<rparr>], 0)"
proof -
  have 1: "exec (lit ''<|ref|>title<|/ref|><|det|>[[0,0,10,10]]<|/det|>FOO<|ref|>text<|/ref|><|det|>[[0,0,20,20]]<|/det|>BAR'') 0
     = (Some \<lparr>capture1 = lit ''title'', capture2 = lit ''0,0,10,10'', index = 0, length0 = 48\<rparr>, 48)"
    by (simp add: string_eval regex_eval)
  have 2: "exec (lit ''<|ref|>title<|/ref|><|det|>[[0,0,10,10]]<|/det|>FOO<|ref|>text<|/ref|><|det|>[[0,0,20,20]]<|/det|>BAR'') 48
     = (Some \<lparr>capture1 = lit ''text'', capture2 = lit ''0,0,20,20'', index = 51, length0 = 47\<rparr>, 98)"
    by (simp add: string_eval regex_eval)
  have 3: "exec (lit ''<|ref|>title<|/ref|><|det|>[[0,0,10,10]]<|/det|>FOO<|ref|>text<|/ref|><|det|>[[0,0,20,20]]<|/det|>BAR'') 98 = (None, 0)"
    by (simp add: string_eval regex_eval)
  from collect_matches_two [OF 1 2 3] show ?thesis
    by (simp add: string_eval regex_eval)
qed

lemma pair_example_first_box:
  "box_of_match (lit ''<|ref|>title<|/ref|><|det|>[[0,0,10,10]]<|/det|>FOO<|ref|>text<|/ref|><|det|>[[0,0,20,20]]<|/det|>BAR'') e
     [\<lparr>mcontent = lit ''title'', coords = lit ''0,0,10,10'', matchStart = 0, matchEnd = 48\<rparr>,
      \<lparr>mcontent = lit ''text'', coords = lit ''0,0,20,20'', matchStart = 51, matchEnd = 98\<rparr>] 0
   = Some \<lparr>content = lit ''title'', textContent = lit ''FOO'', isType = True, type = lit ''title'',
      x1 = Num 0, y1 = Num 0, x2 = Num 10, y2 = Num 10, isComplete = True\<rparr>"
proof -
  have "parse_coords (lit ''0,0,10,10'') = [Num 0, Num 0, Num 10, Num 10]"
    by (simp add: string_eval number_eval)
  then show ?thesis
    by (simp add: box_of_match_def KNOWN_TYPES_def Let_def) (simp add: string_eval)
qed

lemma dropped_example_matches:
  "collect_matches (lit ''<|ref|>text<|/ref|><|det|>[[1,2,3]]<|/det|><|ref|>Hi<|/ref|><|det|>[[1, x,2,3,4]]<|/det|>'') 0 []
   = ([\<lparr>mcontent = lit ''text'', coords = lit ''1,2,3'', matchStart = 0, matchEnd = 43\<rparr>,
      \<lparr>mcontent = lit ''Hi'', coords = lit ''1, x,2,3,4'', matchStart = 43, matchEnd = 89\<rparr>], 0)"
proof -
  have 1: "exec (lit ''<|ref|>text<|/ref|><|det|>[[1,2,3]]<|/det|><|ref|>Hi<|/ref|><|det|>[[1, x,2,3,4]]<|/det|>'') 0
     = (Some \<lparr>capture1 = lit ''text'', capture2 = lit ''1,2,3'', index = 0, length0 = 43\<rparr>, 43)"
    by (simp add: string_eval regex_eval)
  have 2: "exec (lit ''<|ref|>text<|/ref|><|det|>[[1,2,3]]<|/det|><|ref|>Hi<|/ref|><|det|>[[1, x,2,3,4]]<|/det|>'') 43
     = (Some \<lparr>capture1 = lit ''Hi'', capture2 = lit ''1, x,2,3,4'', index = 43, length0 = 46\<rparr>, 89)"
    by (simp add: string_eval regex_eval)
  have 3: "exec (lit ''<|ref|>text<|/ref|><|det|>[[1,2,3]]<|/det|><|ref|>Hi<|/ref|><|det|>[[1, x,2,3,4]]<|/det|>'') 89 = (None, 0)"
    by (simp add: string_eval regex_eval)
  from collect_matches_two [OF 1 2 3] show ?thesis
    by (simp add: string_eval regex_eval)
qed

lemma dropped_example_coords:
  "parse_coords (lit ''1,2,3'') = [Num 1, Num 2, Num 3]"
  "parse_coords (lit ''1, x,2,3,4'') = [Num 1, Num 2, Num 3, Num 4]"
  by (simp_all add: string_eval number_eval)

lemma rejected_last_example_matches:
  "collect_matches (lit ''<|ref|>title<|/ref|><|det|>[[1,2,3,4]]<|/det|> A <|ref|>text<|/ref|><|det|>[[1,2,3]]<|/det|>B'') 0 []
   = ([\<lparr>mcontent = lit ''title'', coords = lit ''1,2,3,4'', matchStart = 0, matchEnd = 46\<rparr>,
      \<lparr>mcontent = lit ''text'', coords = lit ''1,2,3'', matchStart = 49, matchEnd = 92\<rparr>], 0)"
proof -
  have 1: "exec (lit ''<|ref|>title<|/ref|><|det|>[[1,2,3,4]]<|/det|> A <|ref|>text<|/ref|><|det|>[[1,2,3]]<|/det|>B'') 0
     = (Some \<lparr>capture1 = lit ''title'', capture2 = lit ''1,2,3,4'', index = 0, length0 = 46\<rparr>, 46)"
    by (simp add: string_eval regex_eval)
  have 2: "exec (lit ''<|ref|>title<|/ref|><|det|>[[1,2,3,4]]<|/det|> A <|ref|>text<|/ref|><|det|>[[1,2,3]]<|/det|>B'') 46
     = (Some \<lparr>capture1 = lit ''text'', capture2 = lit ''1,2,3'', index = 49, length0 = 43\<rparr>, 92)"
    by (simp add: string_eval regex_eval)
  have 3: "exec (lit ''<|ref|>title<|/ref|><|det|>[[1,2,3,4]]<|/det|> A <|ref|>text<|/ref|><|det|>[[1,2,3]]<|/det|>B'') 92 = (None, 0)"
    by (simp add: string_eval regex_eval)
  from collect_matches_two [OF 1 2 3] show ?thesis
    by (simp add: string_eval regex_eval)
qed

lemma rejected_last_example_boxes:
  "parseBoxesFromTokens (lit ''<|ref|>title<|/ref|><|det|>[[1,2,3,4]]<|/det|> A <|ref|>text<|/ref|><|det|>[[1,2,3]]<|/det|>B'') e
   = [\<lparr>content = lit ''title'', textContent = lit ''A'', isType = True, type = lit ''title'',
       x1 = Num 1, y1 = Num 2, x2 = Num 3, y2 = Num 4, isComplete = True\<rparr>]"
proof -
  have c: "parse_coords (lit ''1,2,3,4'') = [Num 1, Num 2, Num 3, Num 4]"
    "parse_coords (lit ''1,2,3'') = [Num 1, Num 2, Num 3]"
    by (simp_all add: string_eval number_eval)
  have 0: "box_of_match (lit ''<|ref|>title<|/ref|><|det|>[[1,2,3,4]]<|/det|> A <|ref|>text<|/ref|><|det|>[[1,2,3]]<|/det|>B'') e
      [\<lparr>mcontent = lit ''title'', coords = lit ''1,2,3,4'', matchStart = 0, matchEnd = 46\<rparr>,
      \<lparr>mcontent = lit ''text'', coords = lit ''1,2,3'', matchStart = 49, matchEnd = 92\<rparr>] 0
    = Some \<lparr>content = lit ''title'', textContent = lit ''A'', isType = True, type = lit ''title'',
       x1 = Num 1, y1 = Num 2, x2 = Num 3, y2 = Num 4, isComplete = True\<rparr>"
    by (simp add: box_of_match_def c KNOWN_TYPES_def Let_def) (simp add: string_eval)
  have 1: "box_of_match (lit ''<|ref|>title<|/ref|><|det|>[[1,2,3,4]]<|/det|> A <|ref|>text<|/ref|><|det|>[[1,2,3]]<|/det|>B'') e
      [\<lparr>mcontent = lit ''title'', coords = lit ''1,2,3,4'', matchStart = 0, matchEnd = 46\<rparr>,
      \<lparr>mcontent = lit ''text'', coords = lit ''1,2,3'', matchStart = 49, matchEnd = 92\<rparr>] (Suc 0)
    = None"
    by (simp add: box_of_match_def c Let_def)
  have u: "[0..<2] = [0, 1]" by (simp add: upt_rec)
  show ?thesis
    by (simp add: parseBoxesFromTokens_def rejected_last_example_matches u
        List.map_filter_simps 0 1 Let_def)
qed

lemma parse_last:
  assumes "fst (collect_matches t 0 []) = ms" and "ms \<noteq> []"
    and "box_of_match t e ms (length ms - 1) = Some b"
  shows "parseBoxesFromTokens t e \<noteq> [] \<and> last (parseBoxesFromTokens t e) = b"
proof -
  from assms(2) have "[0..<length ms] = [0..<length ms - 1] @ [length ms - 1]"
    by (cases ms rule: rev_cases) simp_all
  then have "parseBoxesFromTokens t e =
      List.map_filter (box_of_match t e ms) [0..<length ms - 1] @ [b]"
    using assms(1,3) by (simp add: parseBoxesFromTokens_def map_filter_snoc)
  then show ?thesis by simp
qed

lemma known_types_have_colors: "k \<in> set KNOWN_TYPES \<Longrightarrow> map_of TYPE_COLORS k \<noteq> None"
  by (auto simp: KNOWN_TYPES_def TYPE_COLORS_def)

lemma text_has_color: "map_of TYPE_COLORS (lit ''text'') \<noteq> None"
  by (rule known_types_have_colors) (simp add: KNOWN_TYPES_def)

lemma colors_not_hot_pink: "map_of TYPE_COLORS k = Some c \<Longrightarrow> c \<noteq> lit ''#FF1493''"
proof -
  assume "map_of TYPE_COLORS k = Some c"
  then have "c \<in> snd ` set TYPE_COLORS"
    by (metis map_of_SomeD image_eqI snd_conv)
  then show ?thesis
    by (auto simp: TYPE_COLORS_def lit_def cu_def)
qed

lemma box_of_match_type:
  "box_of_match t e ms i = Some b \<Longrightarrow>
   isType b = (content b \<in> set KNOWN_TYPES) \<and> type b = (if isType b then content b else lit ''text'')"
  by (auto simp: box_of_match_def Let_def split: if_splits)

lemma modes_differ: "lit ''ocr'' \<noteq> lit ''document''"
  by (simp add: lit_def)

lemma renderBoxes_overlay:
  "overlay (renderBoxes boxes w h m st)
   = overlay st @ (if truthy w \<and> truthy h \<and> boxes \<noteq> []
                   then map (render_group w h m) (drop (lastBoxCount st) boxes) else [])"
  by (simp add: renderBoxes_def Let_def)

lemma renderBoxes_cursor:
  "lastBoxCount (renderBoxes boxes w h m st)
   = (if truthy w \<and> truthy h \<and> boxes \<noteq> [] then length boxes else lastBoxCount st)"
  by (simp add: renderBoxes_def Let_def)

lemma renderBoxes_skip:
  "\<not> (truthy w \<and> truthy h \<and> boxes \<noteq> []) \<Longrightarrow> renderBoxes boxes w h m st = st"
  by (auto simp: renderBoxes_def)

lemma renders_keep_prefix:
  "take (length (overlay st)) (overlay (foldl (\<lambda>s bs. renderBoxes bs w h m s) st polls))
   = overlay st"
proof (induction polls arbitrary: st)
  case Nil
  show ?case by simp
next
  case (Cons bs polls)
  let ?st = "renderBoxes bs w h m st"
  let ?fin = "foldl (\<lambda>s bs. renderBoxes bs w h m s) ?st polls"
  obtain ys where ys: "overlay ?st = overlay st @ ys"
    by (simp add: renderBoxes_overlay)
  have "take (length (overlay st)) (overlay ?fin)
        = take (length (overlay st)) (take (length (overlay ?st)) (overlay ?fin))"
    using ys by (simp add: min_def)
  also have "\<dots> = take (length (overlay st)) (overlay ?st)"
    by (simp only: Cons.IH)
  also have "\<dots> = overlay st" using ys by simp
  finally show ?case by simp
qed

lemma apply_poll_overlay:
  "overlay (apply_poll p data st)
   = overlay st @
     (case raw_token_stream data of
        None \<Rightarrow> []
      | Some stream \<Rightarrow>
          if status data = Processing \<and> stream \<noteq> []
             \<and> truthy (poll_width p) \<and> truthy (poll_height p)
          then map (render_group (poll_width p) (poll_height p) (currentPromptType st))
                 (drop (lastBoxCount st) (parseBoxesFromTokens stream False))
          else [])"
  by (auto simp: apply_poll_def renderBoxes_overlay split: option.splits)

lemma stale_trace_state:
  "run [LoadImage (lit ''page.png''), Start (lit ''document'') (Num 640) (Num 480), Tick,
        Settle (Success (Some (lit ''<|ref|>title<|/ref|><|det|>[[0,0,100,50]]<|/det|>Hello''))),
        Start (lit ''document'') (Num 640) (Num 480)] initial_state
   = \<lparr>lastBoxCount = 0, overlay = [], viewBox = None,
      isProcessing = True, currentImagePath = Some (lit ''page.png''),
      currentPromptType = lit ''document'', currentRawTokens = Some (lit ''<|ref|>title<|/ref|><|det|>[[0,0,100,50]]<|/det|>Hello''),
      tokenPollInterval = True, imageNaturalWidth = Num 640, imageNaturalHeight = Num 480,
      pending = [\<lparr>poll_epoch = 1, poll_width = Num 640, poll_height = Num 480\<rparr>], epoch = 2\<rparr>"
proof -
  have 1: "loadImage (lit ''page.png'') initial_state
     = \<lparr>lastBoxCount = 0, overlay = [], viewBox = None,
      isProcessing = False, currentImagePath = Some (lit ''page.png''),
      currentPromptType = [], currentRawTokens = None,
      tokenPollInterval = False, imageNaturalWidth = Num 0, imageNaturalHeight = Num 0,
      pending = [], epoch = 0\<rparr>"
    by (simp add: loadImage_def initial_state_def)
  have 2: "start (lit ''document'') (Num 640) (Num 480)
       \<lparr>lastBoxCount = 0, overlay = [], viewBox = None,
      isProcessing = False, currentImagePath = Some (lit ''page.png''),
      currentPromptType = [], currentRawTokens = None,
      tokenPollInterval = False, imageNaturalWidth = Num 0, imageNaturalHeight = Num 0,
      pending = [], epoch = 0\<rparr>
     = \<lparr>lastBoxCount = 0, overlay = [], viewBox = None,
      isProcessing = True, currentImagePath = Some (lit ''page.png''),
      currentPromptType = lit ''document'', currentRawTokens = None,
      tokenPollInterval = True, imageNaturalWidth = Num 640, imageNaturalHeight = Num 480,
      pending = [], epoch = 1\<rparr>"
    by (simp add: start_def lit_def)
  have 3: "tick
       \<lparr>lastBoxCount = 0, overlay = [], viewBox = None,
      isProcessing = True, currentImagePath = Some (lit ''page.png''),
      currentPromptType = lit ''document'', currentRawTokens = None,
      tokenPollInterval = True, imageNaturalWidth = Num 640, imageNaturalHeight = Num 480,
      pending = [], epoch = 1\<rparr>
     = \<lparr>lastBoxCount = 0, overlay = [], viewBox = None,
      isProcessing = True, currentImagePath = Some (lit ''page.png''),
      currentPromptType = lit ''document'', currentRawTokens = None,
      tokenPollInterval = True, imageNaturalWidth = Num 640, imageNaturalHeight = Num 480,
      pending = [\<lparr>poll_epoch = 1, poll_width = Num 640, poll_height = Num 480\<rparr>], epoch = 1\<rparr>"
    by (simp add: tick_def)
  have 4: "settle (Success (Some (lit ''<|ref|>title<|/ref|><|det|>[[0,0,100,50]]<|/det|>Hello'')))
       \<lparr>lastBoxCount = 0, overlay = [], viewBox = None,
      isProcessing = True, currentImagePath = Some (lit ''page.png''),
      currentPromptType = lit ''document'', currentRawTokens = None,
      tokenPollInterval = True, imageNaturalWidth = Num 640, imageNaturalHeight = Num 480,
      pending = [\<lparr>poll_epoch = 1, poll_width = Num 640, poll_height = Num 480\<rparr>], epoch = 1\<rparr>
     = \<lparr>lastBoxCount = 1, overlay = [render_group (Num 640) (Num 480) (lit ''document'') \<lparr>content = lit ''title'', textContent = lit ''Hello'', isType = True, type = lit ''title'', x1 = Num 0, y1 = Num 0, x2 = Num 100, y2 = Num 50, isComplete = True\<rparr>], viewBox = Some (Num 640, Num 480),
      isProcessing = False, currentImagePath = Some (lit ''page.png''),
      currentPromptType = lit ''document'', currentRawTokens = Some (lit ''<|ref|>title<|/ref|><|det|>[[0,0,100,50]]<|/det|>Hello''),
      tokenPollInterval = False, imageNaturalWidth = Num 640, imageNaturalHeight = Num 480,
      pending = [\<lparr>poll_epoch = 1, poll_width = Num 640, poll_height = Num 480\<rparr>], epoch = 1\<rparr>"
    by (simp add: settle_def render_full_def renderBoxes_def single_example_boxes Let_def)
       (simp add: lit_def)
  have 5: "start (lit ''document'') (Num 640) (Num 480)
       \<lparr>lastBoxCount = 1, overlay = [render_group (Num 640) (Num 480) (lit ''document'') \<lparr>content = lit ''title'', textContent = lit ''Hello'', isType = True, type = lit ''title'', x1 = Num 0, y1 = Num 0, x2 = Num 100, y2 = Num 50, isComplete = True\<rparr>], viewBox = Some (Num 640, Num 480),
      isProcessing = False, currentImagePath = Some (lit ''page.png''),
      currentPromptType = lit ''document'', currentRawTokens = Some (lit ''<|ref|>title<|/ref|><|det|>[[0,0,100,50]]<|/det|>Hello''),
      tokenPollInterval = False, imageNaturalWidth = Num 640, imageNaturalHeight = Num 480,
      pending = [\<lparr>poll_epoch = 1, poll_width = Num 640, poll_height = Num 480\<rparr>], epoch = 1\<rparr>
     = \<lparr>lastBoxCount = 0, overlay = [], viewBox = None,
      isProcessing = True, currentImagePath = Some (lit ''page.png''),
      currentPromptType = lit ''document'', currentRawTokens = Some (lit ''<|ref|>title<|/ref|><|det|>[[0,0,100,50]]<|/det|>Hello''),
      tokenPollInterval = True, imageNaturalWidth = Num 640, imageNaturalHeight = Num 480,
      pending = [\<lparr>poll_epoch = 1, poll_width = Num 640, poll_height = Num 480\<rparr>], epoch = 2\<rparr>"
    by (simp add: start_def lit_def)
  show ?thesis
    by (simp only: run_def foldl_Cons foldl_Nil step.simps 1 2 3 4 5)
qed

section \<open>The claims\<close>

text \<open>
  C1, as stated: the last annotation is never final while the stream is still open. In
  the text below the last match has only three coordinates and yields no annotation, so
  the last annotation of the output is the one of the first match; its trailing text
  \<open>A\<close> is closed by the second match and it is complete although the completion flag is
  false.
\<close>

theorem rejected_last_match_counterexample:
  "parseBoxesFromTokens (lit ''<|ref|>title<|/ref|><|det|>[[1,2,3,4]]<|/det|> A <|ref|>text<|/ref|><|det|>[[1,2,3]]<|/det|>B'') False
     = [\<lparr>content = lit ''title'', textContent = lit ''A'', isType = True, type = lit ''title'',
       x1 = Num 1, y1 = Num 2, x2 = Num 3, y2 = Num 4, isComplete = True\<rparr>]
   \<and> isComplete (last (parseBoxesFromTokens (lit ''<|ref|>title<|/ref|><|det|>[[1,2,3,4]]<|/det|> A <|ref|>text<|/ref|><|det|>[[1,2,3]]<|/det|>B'') False))"
  by (simp add: rejected_last_example_boxes)

text \<open>
  C1, amended: when the last match of the scan has exactly four numeric coordinates, the
  parser's output is not empty and its last annotation is the one of that match; its
  text content is the text from the match's end to the end of the raw text, trimmed, and
  it is complete exactly when the completion flag is set and that text is not empty. So
  the annotation of the last match is never complete while the stream is open, nor when
  the trimmed trailing text is empty.
\<close>

theorem last_match_finality:
  assumes "fst (collect_matches tokenText 0 []) = matches" and "matches \<noteq> []"
    and "length (parse_coords (coords (last matches))) = 4"
  shows "parseBoxesFromTokens tokenText isOcrComplete \<noteq> []
    \<and> box_of_match tokenText isOcrComplete matches (length matches - 1)
        = Some (last (parseBoxesFromTokens tokenText isOcrComplete))
    \<and> textContent (last (parseBoxesFromTokens tokenText isOcrComplete))
        = trim (drop (matchEnd (last matches)) tokenText)
    \<and> isComplete (last (parseBoxesFromTokens tokenText isOcrComplete))
        = (isOcrComplete \<and> 0 < length (textContent (last (parseBoxesFromTokens tokenText isOcrComplete))))
    \<and> (\<not> isOcrComplete \<longrightarrow> \<not> isComplete (last (parseBoxesFromTokens tokenText isOcrComplete)))
    \<and> (textContent (last (parseBoxesFromTokens tokenText isOcrComplete)) = []
          \<longrightarrow> \<not> isComplete (last (parseBoxesFromTokens tokenText isOcrComplete)))"
proof -
  from assms(2) have l: "matches ! (length matches - 1) = last matches"
    by (simp add: last_conv_nth)
  from assms(3) l obtain b where
    b: "box_of_match tokenText isOcrComplete matches (length matches - 1) = Some b"
    using box_of_match_accepts [of tokenText isOcrComplete matches "length matches - 1"] by auto
  from parse_last [OF assms(1,2) b]
  have p: "parseBoxesFromTokens tokenText isOcrComplete \<noteq> []"
    and lb: "last (parseBoxesFromTokens tokenText isOcrComplete) = b" by simp_all
  from b l assms(3) have t: "textContent b = trim (drop (matchEnd (last matches)) tokenText)"
    and c: "isComplete b = (isOcrComplete \<and> 0 < length (textContent b))"
    by (auto simp: box_of_match_def Let_def substring_from_drop)
  from p lb b t c show ?thesis by auto
qed

theorem last_match_finality_witness:
  "parseBoxesFromTokens (lit ''<|ref|>title<|/ref|><|det|>[[0,0,100,50]]<|/det|>Hello'') False \<noteq> []
   \<and> textContent (last (parseBoxesFromTokens (lit ''<|ref|>title<|/ref|><|det|>[[0,0,100,50]]<|/det|>Hello'') False))
      = trim (drop 49 (lit ''<|ref|>title<|/ref|><|det|>[[0,0,100,50]]<|/det|>Hello''))
   \<and> \<not> isComplete (last (parseBoxesFromTokens (lit ''<|ref|>title<|/ref|><|det|>[[0,0,100,50]]<|/det|>Hello'') False))"
  using last_match_finality [of "lit ''<|ref|>title<|/ref|><|det|>[[0,0,100,50]]<|/det|>Hello''"
      "[\<lparr>mcontent = lit ''title'', coords = lit ''0,0,100,50'', matchStart = 0, matchEnd = 49\<rparr>]" False]
  by (simp add: single_example_matches single_example_coords)

text \<open>
  C2: for a match \<open>i\<close> that is not the last one and yields an annotation, that annotation
  is in the parser's output, the match ends at or before the start of match \<open>i + 1\<close>, the
  text content is the raw text between these two offsets, trimmed, and the annotation is
  complete exactly when that text has positive length, whatever the completion flag.
\<close>

theorem inner_match_finality:
  assumes "fst (collect_matches tokenText 0 []) = matches" and "i < length matches - 1"
    and "box_of_match tokenText isOcrComplete matches i = Some b"
  shows "b \<in> set (parseBoxesFromTokens tokenText isOcrComplete)
    \<and> matchEnd (matches ! i) \<le> matchStart (matches ! (i + 1))
    \<and> matchStart (matches ! (i + 1)) \<le> length tokenText
    \<and> textContent b
        = trim (take (matchStart (matches ! (i + 1)) - matchEnd (matches ! i))
                  (drop (matchEnd (matches ! i)) tokenText))
    \<and> isComplete b = (0 < length (textContent b))
    \<and> box_of_match tokenText (\<not> isOcrComplete) matches i = Some b"
proof -
  from assms(2) have i: "Suc i < length matches" by simp
  from matches_ordered [OF assms(1) i]
  have o: "matchEnd (matches ! i) \<le> matchStart (matches ! (i + 1))"
    and u: "matchStart (matches ! (i + 1)) \<le> length tokenText" by simp_all
  from i assms(1,3) have m: "b \<in> set (parseBoxesFromTokens tokenText isOcrComplete)"
    by (auto simp: parseBoxesFromTokens_def set_map_filter)
  from assms(2,3) have t: "textContent b
      = trim (substring tokenText (matchEnd (matches ! i)) (matchStart (matches ! (i + 1))))"
    and c: "isComplete b = (0 < length (textContent b))"
    and n: "box_of_match tokenText (\<not> isOcrComplete) matches i = Some b"
    by (auto simp: box_of_match_def Let_def split: if_splits)
  from t o u have "textContent b
        = trim (take (matchStart (matches ! (i + 1)) - matchEnd (matches ! i))
                  (drop (matchEnd (matches ! i)) tokenText))"
    by (simp add: substring_between)
  with m o u c n show ?thesis by simp
qed

theorem inner_match_finality_witness:
  "\<lparr>content = lit ''title'', textContent = lit ''FOO'', isType = True, type = lit ''title'',
      x1 = Num 0, y1 = Num 0, x2 = Num 10, y2 = Num 10, isComplete = True\<rparr>
     \<in> set (parseBoxesFromTokens (lit ''<|ref|>title<|/ref|><|det|>[[0,0,10,10]]<|/det|>FOO<|ref|>text<|/ref|><|det|>[[0,0,20,20]]<|/det|>BAR'') False)
   \<and> \<lparr>content = lit ''title'', textContent = lit ''FOO'', isType = True, type = lit ''title'',
      x1 = Num 0, y1 = Num 0, x2 = Num 10, y2 = Num 10, isComplete = True\<rparr>
     \<in> set (parseBoxesFromTokens (lit ''<|ref|>title<|/ref|><|det|>[[0,0,10,10]]<|/det|>FOO<|ref|>text<|/ref|><|det|>[[0,0,20,20]]<|/det|>BAR'') True)"
proof -
  have m: "fst (collect_matches (lit ''<|ref|>title<|/ref|><|det|>[[0,0,10,10]]<|/det|>FOO<|ref|>text<|/ref|><|det|>[[0,0,20,20]]<|/det|>BAR'') 0 [])
     = [\<lparr>mcontent = lit ''title'', coords = lit ''0,0,10,10'', matchStart = 0, matchEnd = 48\<rparr>,
      \<lparr>mcontent = lit ''text'', coords = lit ''0,0,20,20'', matchStart = 51, matchEnd = 98\<rparr>]"
    by (simp add: pair_example_matches)
  have i: "0 < length [\<lparr>mcontent = lit ''title'', coords = lit ''0,0,10,10'', matchStart = 0, matchEnd = 48\<rparr>,
      \<lparr>mcontent = lit ''text'', coords = lit ''0,0,20,20'', matchStart = 51, matchEnd = 98\<rparr>] - 1"
    by simp
  show ?thesis
    by (intro conjI)
       (rule conjunct1 [OF inner_match_finality [OF m i pair_example_first_box [of False]]],
        rule conjunct1 [OF inner_match_finality [OF m i pair_example_first_box [of True]]])
qed

text \<open>
  C3: a match yields an annotation exactly when its coordinate string, split on commas
  with each piece trimmed and read by \<open>parseFloat\<close> and the \<open>NaN\<close> results removed, leaves
  exactly four numbers, which then are the annotation's corners; the parser returns as
  many annotations as there are such matches, so a rejected match only drops out and the
  other matches are still processed.
\<close>

theorem four_coordinates_accepted:
  "(box_of_match tokenText isOcrComplete matches i \<noteq> None)
     = (length (parse_coords (coords (matches ! i))) = 4)
   \<and> (\<forall>b. box_of_match tokenText isOcrComplete matches i = Some b
         \<longrightarrow> [x1 b, y1 b, x2 b, y2 b] = parse_coords (coords (matches ! i)))
   \<and> parse_coords c
       = filter (\<lambda>n. n \<noteq> NaN) (map (\<lambda>s. parseFloat (trim s)) (split_on (cu CHR '','') c))
   \<and> length (parseBoxesFromTokens tokenText isOcrComplete)
       = length (filter (\<lambda>m. length (parse_coords (coords m)) = 4)
                   (fst (collect_matches tokenText 0 [])))"
proof -
  have a: "(box_of_match tokenText isOcrComplete matches i \<noteq> None)
     = (length (parse_coords (coords (matches ! i))) = 4)"
    by (rule box_of_match_accepts)
  have b: "\<forall>b. box_of_match tokenText isOcrComplete matches i = Some b
         \<longrightarrow> [x1 b, y1 b, x2 b, y2 b] = parse_coords (coords (matches ! i))"
  proof (intro allI impI)
    fix b assume s: "box_of_match tokenText isOcrComplete matches i = Some b"
    let ?cs = "parse_coords (coords (matches ! i))"
    from s have l: "length ?cs = 4"
      and "[x1 b, y1 b, x2 b, y2 b] = [?cs ! 0, ?cs ! 1, ?cs ! 2, ?cs ! 3]"
      by (auto simp: box_of_match_def Let_def split: if_splits)
    moreover from l have "?cs = [?cs ! 0, ?cs ! 1, ?cs ! 2, ?cs ! 3]"
      by (intro nth_equalityI) (auto simp: nth_Cons' numeral_eq_Suc less_Suc_eq)
    ultimately show "[x1 b, y1 b, x2 b, y2 b] = ?cs" by simp
  qed
  have c: "parse_coords c
       = filter (\<lambda>n. n \<noteq> NaN) (map (\<lambda>s. parseFloat (trim s)) (split_on (cu CHR '','') c))"
    by (simp add: parse_coords_def isNaN_def)
  have d: "length (parseBoxesFromTokens tokenText isOcrComplete)
       = length (filter (\<lambda>m. length (parse_coords (coords m)) = 4)
                   (fst (collect_matches tokenText 0 [])))"
    unfolding parseBoxesFromTokens_def Let_def
    by (rule length_map_filter_nth) (rule box_of_match_accepts)
  from a b c d show ?thesis by blast
qed

theorem four_coordinates_accepted_witness:
  "length (parseBoxesFromTokens (lit ''<|ref|>text<|/ref|><|det|>[[1,2,3]]<|/det|><|ref|>Hi<|/ref|><|det|>[[1, x,2,3,4]]<|/det|>'') True) = 1
   \<and> box_of_match (lit ''<|ref|>text<|/ref|><|det|>[[1,2,3]]<|/det|><|ref|>Hi<|/ref|><|det|>[[1, x,2,3,4]]<|/det|>'') True
       [\<lparr>mcontent = lit ''text'', coords = lit ''1,2,3'', matchStart = 0, matchEnd = 43\<rparr>,
      \<lparr>mcontent = lit ''Hi'', coords = lit ''1, x,2,3,4'', matchStart = 43, matchEnd = 89\<rparr>] 0 = None
   \<and> box_of_match (lit ''<|ref|>text<|/ref|><|det|>[[1,2,3]]<|/det|><|ref|>Hi<|/ref|><|det|>[[1, x,2,3,4]]<|/det|>'') True
       [\<lparr>mcontent = lit ''text'', coords = lit ''1,2,3'', matchStart = 0, matchEnd = 43\<rparr>,
      \<lparr>mcontent = lit ''Hi'', coords = lit ''1, x,2,3,4'', matchStart = 43, matchEnd = 89\<rparr>] 1 \<noteq> None"
  using four_coordinates_accepted [of "lit ''<|ref|>text<|/ref|><|det|>[[1,2,3]]<|/det|><|ref|>Hi<|/ref|><|det|>[[1, x,2,3,4]]<|/det|>''" True
      "[\<lparr>mcontent = lit ''text'', coords = lit ''1,2,3'', matchStart = 0, matchEnd = 43\<rparr>,
      \<lparr>mcontent = lit ''Hi'', coords = lit ''1, x,2,3,4'', matchStart = 43, matchEnd = 89\<rparr>]" 0 "[]"]
    four_coordinates_accepted [of "lit ''<|ref|>text<|/ref|><|det|>[[1,2,3]]<|/det|><|ref|>Hi<|/ref|><|det|>[[1, x,2,3,4]]<|/det|>''" True
      "[\<lparr>mcontent = lit ''text'', coords = lit ''1,2,3'', matchStart = 0, matchEnd = 43\<rparr>,
      \<lparr>mcontent = lit ''Hi'', coords = lit ''1, x,2,3,4'', matchStart = 43, matchEnd = 89\<rparr>]" 1 "[]"]
  by (simp add: dropped_example_matches dropped_example_coords)

text \<open>
  C4, as stated: after every incremental render the cursor is the length of the
  annotation list. \<open>renderBoxes\<close> returns at once when the list is empty or an image
  dimension is falsy, and then leaves the cursor as it was: after one box has been drawn,
  a render of the empty list keeps the cursor at 1; with an image width of 0 a render of
  one box keeps the cursor at 0.
\<close>

theorem cursor_not_reset_counterexample:
  "lastBoxCount (renderBoxes [] (Num 640) (Num 480) (lit ''ocr'')
      (renderBoxes [\<lparr>content = lit ''title'', textContent = lit ''Hello'', isType = True, type = lit ''title'',
        x1 = Num 0, y1 = Num 0, x2 = Num 100, y2 = Num 50, isComplete = True\<rparr>] (Num 640) (Num 480) (lit ''ocr'')
         \<lparr>lastBoxCount = 0, overlay = [], viewBox = None\<rparr>))
     \<noteq> length ([] :: box list)
   \<and> lastBoxCount (renderBoxes [\<lparr>content = lit ''title'', textContent = lit ''Hello'', isType = True, type = lit ''title'',
        x1 = Num 0, y1 = Num 0, x2 = Num 100, y2 = Num 50, isComplete = True\<rparr>] (Num 0) (Num 480) (lit ''ocr'')
         \<lparr>lastBoxCount = 0, overlay = [], viewBox = None\<rparr>)
     \<noteq> length [\<lparr>content = lit ''title'', textContent = lit ''Hello'', isType = True, type = lit ''title'',
        x1 = Num 0, y1 = Num 0, x2 = Num 100, y2 = Num 50, isComplete = True\<rparr>]"
  by (simp add: renderBoxes_def Let_def)

text \<open>
  C4, amended: an incremental render never changes a group already in the overlay. When
  the annotation list is not empty and both image dimensions are truthy it appends
  groups for exactly the annotations at index at or above the cursor and sets the cursor
  to the length of the list; otherwise it changes nothing, the cursor included. Any
  sequence of incremental renders keeps the groups that were there before it, and the
  final full render with truthy dimensions leaves exactly one group per annotation of
  the final list, with the cursor at its length.
\<close>

theorem render_incremental:
  "take (length (overlay st)) (overlay (renderBoxes boxes w h m st)) = overlay st
   \<and> (truthy w \<and> truthy h \<and> boxes \<noteq> [] \<longrightarrow>
        overlay (renderBoxes boxes w h m st)
          = overlay st @ map (render_group w h m) (drop (lastBoxCount st) boxes)
        \<and> lastBoxCount (renderBoxes boxes w h m st) = length boxes)
   \<and> (\<not> (truthy w \<and> truthy h \<and> boxes \<noteq> []) \<longrightarrow> renderBoxes boxes w h m st = st)
   \<and> take (length (overlay st)) (overlay (foldl (\<lambda>s bs. renderBoxes bs w h m s) st polls))
       = overlay st
   \<and> (truthy w \<and> truthy h \<longrightarrow>
        overlay (render_full boxes w h m st) = map (render_group w h m) boxes
        \<and> length (overlay (render_full boxes w h m st)) = length boxes
        \<and> lastBoxCount (render_full boxes w h m st) = length boxes)"
proof -
  have a: "take (length (overlay st)) (overlay (renderBoxes boxes w h m st)) = overlay st"
    by (simp add: renderBoxes_overlay)
  have b: "truthy w \<and> truthy h \<and> boxes \<noteq> [] \<longrightarrow>
        overlay (renderBoxes boxes w h m st)
          = overlay st @ map (render_group w h m) (drop (lastBoxCount st) boxes)
        \<and> lastBoxCount (renderBoxes boxes w h m st) = length boxes"
    by (simp add: renderBoxes_overlay renderBoxes_cursor)
  have c: "\<not> (truthy w \<and> truthy h \<and> boxes \<noteq> []) \<longrightarrow> renderBoxes boxes w h m st = st"
    using renderBoxes_skip [of w h boxes m st] by blast
  have d: "truthy w \<and> truthy h \<longrightarrow>
        overlay (render_full boxes w h m st) = map (render_group w h m) boxes
        \<and> length (overlay (render_full boxes w h m st)) = length boxes
        \<and> lastBoxCount (render_full boxes w h m st) = length boxes"
    by (simp add: render_full_def renderBoxes_overlay renderBoxes_cursor)
  from a b c d renders_keep_prefix [of st w h m polls] show ?thesis by blast
qed

theorem render_incremental_witness:
  "lastBoxCount (renderBoxes [\<lparr>content = lit ''title'', textContent = lit ''Hello'', isType = True, type = lit ''title'',
        x1 = Num 0, y1 = Num 0, x2 = Num 100, y2 = Num 50, isComplete = True\<rparr>] (Num 640) (Num 480) (lit ''ocr'')
      \<lparr>lastBoxCount = 0, overlay = [], viewBox = None\<rparr>) = 1
   \<and> renderBoxes [\<lparr>content = lit ''title'', textContent = lit ''Hello'', isType = True, type = lit ''title'',
        x1 = Num 0, y1 = Num 0, x2 = Num 100, y2 = Num 50, isComplete = True\<rparr>] (Num 0) (Num 480) (lit ''ocr'')
      \<lparr>lastBoxCount = 0, overlay = [], viewBox = None\<rparr> = \<lparr>lastBoxCount = 0, overlay = [], viewBox = None\<rparr>"
  using render_incremental [where st = "\<lparr>lastBoxCount = 0, overlay = [], viewBox = None\<rparr>"
      and boxes = "[\<lparr>content = lit ''title'', textContent = lit ''Hello'', isType = True, type = lit ''title'',
        x1 = Num 0, y1 = Num 0, x2 = Num 100, y2 = Num 50, isComplete = True\<rparr>]" and w = "Num 640" and h = "Num 480" and m = "lit ''ocr''" and polls = "[]"]
    render_incremental [where st = "\<lparr>lastBoxCount = 0, overlay = [], viewBox = None\<rparr>"
      and boxes = "[\<lparr>content = lit ''title'', textContent = lit ''Hello'', isType = True, type = lit ''title'',
        x1 = Num 0, y1 = Num 0, x2 = Num 100, y2 = Num 50, isComplete = True\<rparr>]" and w = "Num 0" and h = "Num 480" and m = "lit ''ocr''" and polls = "[]"]
  by simp

text \<open>
  C5: in \<open>ocr\<close> mode a group has a click listener exactly when its box is not a type
  label, and the listener copies the box's content; in \<open>document\<close> mode it has one
  exactly when the box is a type label that is complete with non-empty text content, and
  the listener copies that text content, while the group of an incomplete type label is
  dimmed, takes no pointer events and has no listener; in any other mode no group has a
  listener or takes pointer events.
\<close>

theorem clickability:
  "(promptType = lit ''ocr'' \<longrightarrow>
      (clickCopies (render_group imageWidth imageHeight promptType b) \<noteq> None) = (\<not> isType b)
      \<and> (\<not> isType b \<longrightarrow>
           clickCopies (render_group imageWidth imageHeight promptType b) = Some (content b)
           \<and> pointerEvents (render_group imageWidth imageHeight promptType b) = PointerAll)
      \<and> (isType b \<longrightarrow>
           pointerEvents (render_group imageWidth imageHeight promptType b) = PointerNone))
   \<and> (promptType = lit ''document'' \<longrightarrow>
      (clickCopies (render_group imageWidth imageHeight promptType b) \<noteq> None)
        = (isType b \<and> isComplete b \<and> textContent b \<noteq> [])
      \<and> (isType b \<and> isComplete b \<and> textContent b \<noteq> [] \<longrightarrow>
           clickCopies (render_group imageWidth imageHeight promptType b) = Some (textContent b)
           \<and> pointerEvents (render_group imageWidth imageHeight promptType b) = PointerAll
           \<and> \<not> dimmed (render_group imageWidth imageHeight promptType b))
      \<and> (isType b \<and> \<not> isComplete b \<longrightarrow>
           dimmed (render_group imageWidth imageHeight promptType b)
           \<and> pointerEvents (render_group imageWidth imageHeight promptType b) = PointerNone
           \<and> cursor (render_group imageWidth imageHeight promptType b) = CursorDefault
           \<and> clickCopies (render_group imageWidth imageHeight promptType b) = None))
   \<and> (promptType \<noteq> lit ''ocr'' \<and> promptType \<noteq> lit ''document'' \<longrightarrow>
      clickCopies (render_group imageWidth imageHeight promptType b) = None
      \<and> pointerEvents (render_group imageWidth imageHeight promptType b) = PointerNone)"
  using modes_differ by (auto simp: render_group_def Let_def)

theorem clickability_witness:
  "clickCopies (render_group (Num 640) (Num 480) (lit ''ocr'')
      \<lparr>content = lit ''Hi'', textContent = [], isType = False, type = lit ''text'',
        x1 = Num 1, y1 = Num 2, x2 = Num 3, y2 = Num 4, isComplete = False\<rparr>) = Some (lit ''Hi'')
   \<and> clickCopies (render_group (Num 640) (Num 480) (lit ''document'')
      \<lparr>content = lit ''title'', textContent = lit ''Hello'', isType = True, type = lit ''title'',
        x1 = Num 0, y1 = Num 0, x2 = Num 100, y2 = Num 50, isComplete = True\<rparr>) = Some (lit ''Hello'')
   \<and> clickCopies (render_group (Num 640) (Num 480) (lit ''free'')
      \<lparr>content = lit ''title'', textContent = lit ''Hello'', isType = True, type = lit ''title'',
        x1 = Num 0, y1 = Num 0, x2 = Num 100, y2 = Num 50, isComplete = True\<rparr>) = None"
  using clickability [of "lit ''ocr''" "Num 640" "Num 480"
      "\<lparr>content = lit ''Hi'', textContent = [], isType = False, type = lit ''text'',
        x1 = Num 1, y1 = Num 2, x2 = Num 3, y2 = Num 4, isComplete = False\<rparr>"]
    clickability [of "lit ''document''" "Num 640" "Num 480"
      "\<lparr>content = lit ''title'', textContent = lit ''Hello'', isType = True, type = lit ''title'',
        x1 = Num 0, y1 = Num 0, x2 = Num 100, y2 = Num 50, isComplete = True\<rparr>"]
    clickability [of "lit ''free''" "Num 640" "Num 480"
      "\<lparr>content = lit ''title'', textContent = lit ''Hello'', isType = True, type = lit ''title'',
        x1 = Num 0, y1 = Num 0, x2 = Num 100, y2 = Num 50, isComplete = True\<rparr>"]
  by (simp add: lit_def)

text \<open>
  C6, as stated: doubling both image dimensions doubles all four scaled corners, and a
  corner outside the range from 0 to 999 is scaled to a point outside the canvas. The
  arithmetic is binary64. With an image width of \<open>2\<^sup>1\<^sup>0\<^sup>2\<^sup>3\<close> the doubled width overflows to
  \<open>Infinity\<close>, and for a box whose left edge is \<open>0\<close> the scaled left edge becomes
  \<open>0 * Infinity = NaN\<close>, while twice the scaled left edge at the original width is \<open>0\<close>.
  And a box whose left edge is the negative number \<open>-2\<^sup>-\<^sup>1\<^sup>0\<^sup>7\<^sup>4\<close> is scaled, at width 640,
  to \<open>-0\<close>, which is on the canvas: the quotient by 999 underflows.
\<close>

theorem doubling_overflow_counterexample:
  "scaledX1 (render_group (js_mul (Num 2) (Num (2 ^ 1023))) (js_mul (Num 2) (Num 480)) (lit ''ocr'')
      \<lparr>content = lit ''title'', textContent = lit ''Hello'', isType = True, type = lit ''title'',
        x1 = Num 0, y1 = Num 0, x2 = Num 999, y2 = Num 1998, isComplete = True\<rparr>)
     = NaN
   \<and> js_mul (Num 2) (scaledX1 (render_group (Num (2 ^ 1023)) (Num 480) (lit ''ocr'')
      \<lparr>content = lit ''title'', textContent = lit ''Hello'', isType = True, type = lit ''title'',
        x1 = Num 0, y1 = Num 0, x2 = Num 999, y2 = Num 1998, isComplete = True\<rparr>))
     = Num 0
   \<and> scaledX1 (render_group (Num 640) (Num 480) (lit ''ocr'')
      \<lparr>content = lit ''title'', textContent = lit ''Hello'', isType = True, type = lit ''title'',
        x1 = Num (- (2 powi (- 1074))), y1 = Num 0, x2 = Num 999, y2 = Num 1998,
        isComplete = True\<rparr>)
     = NegZero"
proof -
  have "rnd (2 * 2 ^ 1023) = 2 ^ 1024"
    using rnd_power_two [of 1024] by simp
  then have o: "js_mul (Num 2) (Num (2 ^ 1023)) = PosInfinity"
    by (simp add: js_mul_def is_infinite_def to_binary64_def Let_def)
  have "grid_exp (- (2 powi (- 1074)) / 999) = - 1022"
    by (rule grid_exp_subnormal) (simp add: power_int_minus)
  then have "rnd (- (2 powi (- 1074)) / 999) = 0"
    by (simp add: rnd_def Let_def round_even_def)
  then have u: "js_div (Num (- (2 powi (- 1074)))) (Num 999) = NegZero"
    by (simp add: js_div_def is_infinite_def is_zero_def to_binary64_def Let_def)
  have sx: "scaledX1 (render_group w h m b) = js_mul (js_div (x1 b) DEEPSEEK_COORD_MAX) w"
    for w h m b
    by (simp add: render_group_def Let_def)
  have z: "js_div (Num 0) (Num 999) = Num 0"
    by (simp add: js_div_def is_infinite_def is_zero_def signed_zero_def)
  show ?thesis
    unfolding sx
    by (simp only: box.select_convs DEEPSEEK_COORD_MAX_def o u z)
       (simp add: js_mul_def is_infinite_def is_zero_def signed_zero_def)
qed

text \<open>
  C6, amended: each scaled corner of a group is the binary64 result of the box's corner
  divided by 999 and then multiplied by the image width (for x) or height (for y), each
  operation rounded to nearest, with no clamping: for binary64 values \<open>v\<close> and \<open>d\<close> with
  \<open>d \<ge> 1\<close> the result lies above \<open>d\<close> (or is \<open>Infinity\<close>) when \<open>v > 999\<close>, and lies below \<open>0\<close>
  (or is \<open>-Infinity\<close>) when \<open>v \<le> -2\<^sup>-\<^sup>1\<^sup>0\<^sup>2\<^sup>2\<close>. Doubling both image dimensions doubles all
  four scaled corners whenever the dimensions are binary64 values whose doubles do not
  overflow and the exact product of each rounded quotient with its dimension is zero or
  not subnormal.
\<close>

theorem projection_linear:
  "DEEPSEEK_COORD_MAX = Num 999
   \<and> scaledX1 (render_group imageWidth imageHeight promptType b)
      = js_mul (js_div (x1 b) DEEPSEEK_COORD_MAX) imageWidth
   \<and> scaledY1 (render_group imageWidth imageHeight promptType b)
      = js_mul (js_div (y1 b) DEEPSEEK_COORD_MAX) imageHeight
   \<and> scaledX2 (render_group imageWidth imageHeight promptType b)
      = js_mul (js_div (x2 b) DEEPSEEK_COORD_MAX) imageWidth
   \<and> scaledY2 (render_group imageWidth imageHeight promptType b)
      = js_mul (js_div (y2 b) DEEPSEEK_COORD_MAX) imageHeight
   \<and> (is_binary64 (Num v) \<and> is_binary64 (Num d) \<and> 1 \<le> d \<and> 999 < v \<longrightarrow>
        js_mul (js_div (Num v) DEEPSEEK_COORD_MAX) (Num d) = PosInfinity
        \<or> (\<exists>p. js_mul (js_div (Num v) DEEPSEEK_COORD_MAX) (Num d) = Num p \<and> d < p))
   \<and> (is_binary64 (Num d) \<and> 1 \<le> d \<and> v \<le> - (2 powi (- 1022)) \<longrightarrow>
        js_mul (js_div (Num v) DEEPSEEK_COORD_MAX) (Num d) = NegInfinity
        \<or> (\<exists>p. js_mul (js_div (Num v) DEEPSEEK_COORD_MAX) (Num d) = Num p \<and> p < 0))
   \<and> (is_binary64 imageWidth \<and> is_binary64 imageHeight
        \<and> (is_infinite (js_mul (Num 2) imageWidth) \<longrightarrow> is_infinite imageWidth)
        \<and> (is_infinite (js_mul (Num 2) imageHeight) \<longrightarrow> is_infinite imageHeight)
        \<and> normal_or_zero (finite_value (js_div (x1 b) DEEPSEEK_COORD_MAX) * finite_value imageWidth)
        \<and> normal_or_zero (finite_value (js_div (y1 b) DEEPSEEK_COORD_MAX) * finite_value imageHeight)
        \<and> normal_or_zero (finite_value (js_div (x2 b) DEEPSEEK_COORD_MAX) * finite_value imageWidth)
        \<and> normal_or_zero (finite_value (js_div (y2 b) DEEPSEEK_COORD_MAX) * finite_value imageHeight)
        \<longrightarrow>
        scaledX1 (render_group (js_mul (Num 2) imageWidth) (js_mul (Num 2) imageHeight) promptType b)
          = js_mul (Num 2) (scaledX1 (render_group imageWidth imageHeight promptType b))
        \<and> scaledY1 (render_group (js_mul (Num 2) imageWidth) (js_mul (Num 2) imageHeight) promptType b)
          = js_mul (Num 2) (scaledY1 (render_group imageWidth imageHeight promptType b))
        \<and> scaledX2 (render_group (js_mul (Num 2) imageWidth) (js_mul (Num 2) imageHeight) promptType b)
          = js_mul (Num 2) (scaledX2 (render_group imageWidth imageHeight promptType b))
        \<and> scaledY2 (render_group (js_mul (Num 2) imageWidth) (js_mul (Num 2) imageHeight) promptType b)
          = js_mul (Num 2) (scaledY2 (render_group imageWidth imageHeight promptType b)))"
proof -
  have f: "DEEPSEEK_COORD_MAX = Num 999
   \<and> scaledX1 (render_group imageWidth imageHeight promptType b)
      = js_mul (js_div (x1 b) DEEPSEEK_COORD_MAX) imageWidth
   \<and> scaledY1 (render_group imageWidth imageHeight promptType b)
      = js_mul (js_div (y1 b) DEEPSEEK_COORD_MAX) imageHeight
   \<and> scaledX2 (render_group imageWidth imageHeight promptType b)
      = js_mul (js_div (x2 b) DEEPSEEK_COORD_MAX) imageWidth
   \<and> scaledY2 (render_group imageWidth imageHeight promptType b)
      = js_mul (js_div (y2 b) DEEPSEEK_COORD_MAX) imageHeight"
    by (simp add: render_group_def Let_def DEEPSEEK_COORD_MAX_def)
  have a: "is_binary64 (Num v) \<and> is_binary64 (Num d) \<and> 1 \<le> d \<and> 999 < v \<longrightarrow>
        js_mul (js_div (Num v) DEEPSEEK_COORD_MAX) (Num d) = PosInfinity
        \<or> (\<exists>p. js_mul (js_div (Num v) DEEPSEEK_COORD_MAX) (Num d) = Num p \<and> d < p)"
  proof
    assume h: "is_binary64 (Num v) \<and> is_binary64 (Num d) \<and> 1 \<le> d \<and> 999 < v"
    then have "rnd v = v" "999 < v" "rnd d = d" "1 \<le> d" "d < 2 ^ 1024"
      by (auto simp: is_binary64_def)
    then show "js_mul (js_div (Num v) DEEPSEEK_COORD_MAX) (Num d) = PosInfinity
        \<or> (\<exists>p. js_mul (js_div (Num v) DEEPSEEK_COORD_MAX) (Num d) = Num p \<and> d < p)"
      by (rule project_above)
  qed
  have n: "is_binary64 (Num d) \<and> 1 \<le> d \<and> v \<le> - (2 powi (- 1022)) \<longrightarrow>
        js_mul (js_div (Num v) DEEPSEEK_COORD_MAX) (Num d) = NegInfinity
        \<or> (\<exists>p. js_mul (js_div (Num v) DEEPSEEK_COORD_MAX) (Num d) = Num p \<and> p < 0)"
    using project_below [of v d] by blast
  have t: "is_binary64 imageWidth \<and> is_binary64 imageHeight
        \<and> (is_infinite (js_mul (Num 2) imageWidth) \<longrightarrow> is_infinite imageWidth)
        \<and> (is_infinite (js_mul (Num 2) imageHeight) \<longrightarrow> is_infinite imageHeight)
        \<and> normal_or_zero (finite_value (js_div (x1 b) DEEPSEEK_COORD_MAX) * finite_value imageWidth)
        \<and> normal_or_zero (finite_value (js_div (y1 b) DEEPSEEK_COORD_MAX) * finite_value imageHeight)
        \<and> normal_or_zero (finite_value (js_div (x2 b) DEEPSEEK_COORD_MAX) * finite_value imageWidth)
        \<and> normal_or_zero (finite_value (js_div (y2 b) DEEPSEEK_COORD_MAX) * finite_value imageHeight)
        \<longrightarrow>
        scaledX1 (render_group (js_mul (Num 2) imageWidth) (js_mul (Num 2) imageHeight) promptType b)
          = js_mul (Num 2) (scaledX1 (render_group imageWidth imageHeight promptType b))
        \<and> scaledY1 (render_group (js_mul (Num 2) imageWidth) (js_mul (Num 2) imageHeight) promptType b)
          = js_mul (Num 2) (scaledY1 (render_group imageWidth imageHeight promptType b))
        \<and> scaledX2 (render_group (js_mul (Num 2) imageWidth) (js_mul (Num 2) imageHeight) promptType b)
          = js_mul (Num 2) (scaledX2 (render_group imageWidth imageHeight promptType b))
        \<and> scaledY2 (render_group (js_mul (Num 2) imageWidth) (js_mul (Num 2) imageHeight) promptType b)
          = js_mul (Num 2) (scaledY2 (render_group imageWidth imageHeight promptType b))"
    by (simp add: render_group_def Let_def js_mul_double)
  from f a n t show ?thesis by blast
qed

theorem projection_linear_witness:
  "is_binary64 (Num 640) \<and> is_binary64 (Num 480) \<and> is_binary64 (Num 1998)
   \<and> \<not> is_infinite (js_mul (Num 2) (Num 640)) \<and> \<not> is_infinite (js_mul (Num 2) (Num 480))
   \<and> normal_or_zero (finite_value (js_div (Num 0) DEEPSEEK_COORD_MAX) * finite_value (Num 640))
   \<and> normal_or_zero (finite_value (js_div (Num 999) DEEPSEEK_COORD_MAX) * finite_value (Num 640))
   \<and> normal_or_zero (finite_value (js_div (Num 1998) DEEPSEEK_COORD_MAX) * finite_value (Num 480))
   \<and> scaledX2 (render_group (Num 640) (Num 480) (lit ''ocr'')
      \<lparr>content = lit ''title'', textContent = lit ''Hello'', isType = True, type = lit ''title'',
        x1 = Num 0, y1 = Num 0, x2 = Num 999, y2 = Num 1998, isComplete = True\<rparr>) = Num 640
   \<and> scaledY2 (render_group (Num 640) (Num 480) (lit ''ocr'')
      \<lparr>content = lit ''title'', textContent = lit ''Hello'', isType = True, type = lit ''title'',
        x1 = Num 0, y1 = Num 0, x2 = Num 999, y2 = Num 1998, isComplete = True\<rparr>) = Num 960
   \<and> scaledY2 (render_group (js_mul (Num 2) (Num 640)) (js_mul (Num 2) (Num 480)) (lit ''ocr'')
      \<lparr>content = lit ''title'', textContent = lit ''Hello'', isType = True, type = lit ''title'',
        x1 = Num 0, y1 = Num 0, x2 = Num 999, y2 = Num 1998, isComplete = True\<rparr>) = Num 1920
   \<and> js_mul (js_div (Num 1998) DEEPSEEK_COORD_MAX) (Num 480) = Num 960"
  using projection_linear [of "Num 640" "Num 480" "lit ''ocr''"
      "\<lparr>content = lit ''title'', textContent = lit ''Hello'', isType = True, type = lit ''title'',
        x1 = Num 0, y1 = Num 0, x2 = Num 999, y2 = Num 1998, isComplete = True\<rparr>" 1998 480]
  by (simp add: js_mul_def js_div_def is_infinite_def is_zero_def signed_zero_def
      DEEPSEEK_COORD_MAX_def is_binary64_def normal_or_zero_def power_int_minus)

text \<open>
  C8, as stated: a poll result of an earlier operation never changes the overlay. The
  event sequence below loads an image, starts an operation, lets the timer fire once (the
  callback's fetch is in flight), settles the operation and starts a second one, whose
  overlay is empty. The callback in flight was started by operation 1 while the current
  operation is 2; when its fetch answers with status \<open>processing\<close> and a token stream
  holding one annotation, the callback draws that annotation on the overlay.
\<close>

theorem stale_poll_counterexample:
  "poll_epoch (pending (run [LoadImage (lit ''page.png''), Start (lit ''document'') (Num 640) (Num 480), Tick,
        Settle (Success (Some (lit ''<|ref|>title<|/ref|><|det|>[[0,0,100,50]]<|/det|>Hello''))),
        Start (lit ''document'') (Num 640) (Num 480)] initial_state) ! 0)
   < epoch (run [LoadImage (lit ''page.png''), Start (lit ''document'') (Num 640) (Num 480), Tick,
        Settle (Success (Some (lit ''<|ref|>title<|/ref|><|det|>[[0,0,100,50]]<|/det|>Hello''))),
        Start (lit ''document'') (Num 640) (Num 480)] initial_state)
   \<and> overlay (run [LoadImage (lit ''page.png''), Start (lit ''document'') (Num 640) (Num 480), Tick,
        Settle (Success (Some (lit ''<|ref|>title<|/ref|><|det|>[[0,0,100,50]]<|/det|>Hello''))),
        Start (lit ''document'') (Num 640) (Num 480)] initial_state) = []
   \<and> overlay (step (PollResolved 0
        \<lparr>status = Processing, raw_token_stream = Some (lit ''<|ref|>title<|/ref|><|det|>[[0,0,100,50]]<|/det|>Hello'')\<rparr>)
       (run [LoadImage (lit ''page.png''), Start (lit ''document'') (Num 640) (Num 480), Tick,
        Settle (Success (Some (lit ''<|ref|>title<|/ref|><|det|>[[0,0,100,50]]<|/det|>Hello''))),
        Start (lit ''document'') (Num 640) (Num 480)] initial_state))
     = [render_group (Num 640) (Num 480) (lit ''document'') \<lparr>content = lit ''title'', textContent = lit ''Hello'', isType = True, type = lit ''title'', x1 = Num 0, y1 = Num 0, x2 = Num 100, y2 = Num 50, isComplete = False\<rparr>]"
  by (simp add: stale_trace_state poll_resolved_def apply_poll_overlay single_example_boxes)
     (simp add: lit_def)

text \<open>
  C8, amended: settling an operation clears the poll timer, so that no further callback
  is started (a timer tick changes nothing), and on success with non-empty raw tokens and
  truthy image dimensions it leaves in the overlay exactly the groups of the final
  annotation list, with the cursor at its length. Settling does not discard the callbacks
  in flight, and there is no epoch check: whenever a callback's fetch answers, whichever
  operation started it, the callback appends to the overlay the groups of its response's
  annotations from the cursor on, provided the status is \<open>processing\<close>, the token stream
  is non-empty and the callback's image dimensions are truthy, and appends nothing
  otherwise.
\<close>

theorem settle_keeps_stale_polls:
  assumes "isProcessing st"
  shows "\<not> tokenPollInterval (settle result st)
    \<and> tick (settle result st) = settle result st
    \<and> pending (settle result st) = pending st
    \<and> (result = Success (Some raw) \<and> raw \<noteq> []
         \<and> truthy (imageNaturalWidth st) \<and> truthy (imageNaturalHeight st) \<longrightarrow>
         overlay (settle result st)
           = map (render_group (imageNaturalWidth st) (imageNaturalHeight st) (currentPromptType st))
               (parseBoxesFromTokens raw True)
         \<and> lastBoxCount (settle result st) = length (parseBoxesFromTokens raw True))
    \<and> (k < length (pending st') \<longrightarrow>
         overlay (poll_resolved k data st')
         = overlay st' @
           (case raw_token_stream data of
              None \<Rightarrow> []
            | Some stream \<Rightarrow>
                if status data = Processing \<and> stream \<noteq> []
                   \<and> truthy (poll_width (pending st' ! k)) \<and> truthy (poll_height (pending st' ! k))
                then map (render_group (poll_width (pending st' ! k)) (poll_height (pending st' ! k))
                            (currentPromptType st'))
                       (drop (lastBoxCount st') (parseBoxesFromTokens stream False))
                else []))"
proof -
  have t: "\<not> tokenPollInterval (settle result st)"
    using assms
    by (cases result)
       (auto simp: settle_def Let_def render_full_def renderBoxes_def split: option.splits)
  then have k: "tick (settle result st) = settle result st"
    by (simp add: tick_def)
  have p: "pending (settle result st) = pending st"
    using assms
    by (cases result)
       (auto simp: settle_def Let_def render_full_def renderBoxes_def split: option.splits)
  have f: "result = Success (Some raw) \<and> raw \<noteq> []
         \<and> truthy (imageNaturalWidth st) \<and> truthy (imageNaturalHeight st) \<longrightarrow>
         overlay (settle result st)
           = map (render_group (imageNaturalWidth st) (imageNaturalHeight st) (currentPromptType st))
               (parseBoxesFromTokens raw True)
         \<and> lastBoxCount (settle result st) = length (parseBoxesFromTokens raw True)"
    using assms
    by (simp add: settle_def Let_def render_full_def renderBoxes_overlay renderBoxes_cursor)
  have s: "k < length (pending st') \<longrightarrow>
         overlay (poll_resolved k data st')
         = overlay st' @
           (case raw_token_stream data of
              None \<Rightarrow> []
            | Some stream \<Rightarrow>
                if status data = Processing \<and> stream \<noteq> []
                   \<and> truthy (poll_width (pending st' ! k)) \<and> truthy (poll_height (pending st' ! k))
                then map (render_group (poll_width (pending st' ! k)) (poll_height (pending st' ! k))
                            (currentPromptType st'))
                       (drop (lastBoxCount st') (parseBoxesFromTokens stream False))
                else [])"
    by (auto simp: poll_resolved_def apply_poll_overlay split: option.splits)
  from t k p f s show ?thesis by blast
qed

theorem settle_keeps_stale_polls_witness:
  "lastBoxCount (settle (Success (Some (lit ''<|ref|>title<|/ref|><|det|>[[0,0,100,50]]<|/det|>Hello'')))
      \<lparr>lastBoxCount = 0, overlay = [], viewBox = None,
        isProcessing = True, currentImagePath = Some (lit ''page.png''),
        currentPromptType = lit ''document'', currentRawTokens = None,
        tokenPollInterval = True, imageNaturalWidth = Num 640, imageNaturalHeight = Num 480,
        pending = [\<lparr>poll_epoch = 1, poll_width = Num 640, poll_height = Num 480\<rparr>], epoch = 1\<rparr>) = 1
   \<and> pending (settle (Success (Some (lit ''<|ref|>title<|/ref|><|det|>[[0,0,100,50]]<|/det|>Hello'')))
      \<lparr>lastBoxCount = 0, overlay = [], viewBox = None,
        isProcessing = True, currentImagePath = Some (lit ''page.png''),
        currentPromptType = lit ''document'', currentRawTokens = None,
        tokenPollInterval = True, imageNaturalWidth = Num 640, imageNaturalHeight = Num 480,
        pending = [\<lparr>poll_epoch = 1, poll_width = Num 640, poll_height = Num 480\<rparr>], epoch = 1\<rparr>) = [\<lparr>poll_epoch = 1, poll_width = Num 640, poll_height = Num 480\<rparr>]"
  using settle_keeps_stale_polls [of
      "\<lparr>lastBoxCount = 0, overlay = [], viewBox = None,
        isProcessing = True, currentImagePath = Some (lit ''page.png''),
        currentPromptType = lit ''document'', currentRawTokens = None,
        tokenPollInterval = True, imageNaturalWidth = Num 640, imageNaturalHeight = Num 480,
        pending = [\<lparr>poll_epoch = 1, poll_width = Num 640, poll_height = Num 480\<rparr>], epoch = 1\<rparr>"
      "Success (Some (lit ''<|ref|>title<|/ref|><|det|>[[0,0,100,50]]<|/det|>Hello''))" "lit ''<|ref|>title<|/ref|><|det|>[[0,0,100,50]]<|/det|>Hello''" 0 "\<lparr>lastBoxCount = 0, overlay = [], viewBox = None,
        isProcessing = True, currentImagePath = Some (lit ''page.png''),
        currentPromptType = lit ''document'', currentRawTokens = None,
        tokenPollInterval = True, imageNaturalWidth = Num 640, imageNaturalHeight = Num 480,
        pending = [\<lparr>poll_epoch = 1, poll_width = Num 640, poll_height = Num 480\<rparr>], epoch = 1\<rparr>" "\<lparr>status = Idle, raw_token_stream = None\<rparr>"]
  by (simp add: single_example_boxes) (simp add: lit_def)

text \<open>
  C9, as stated: on the text \<open><ref>title</ref><det>[[0,0,100,50]]</det>Hello\<close> the parser
  returns one annotation. The regular expression asks for the markers \<open><|ref|>\<close>,
  \<open><|/ref|>\<close>, \<open><|det|>\<close> and \<open><|/det|>\<close>, so on this text it finds no match and
  returns no annotation, whatever the completion flag.
\<close>

theorem unpiped_markers_counterexample:
  "length (parseBoxesFromTokens (lit ''<ref>title</ref><det>[[0,0,100,50]]</det>Hello'') False) = 0
   \<and> parseBoxesFromTokens (lit ''<ref>title</ref><det>[[0,0,100,50]]</det>Hello'') True = []"
  by (simp add: unpiped_example_boxes)

text \<open>
  C9, amended: on the text \<open><|ref|>title<|/ref|><|det|>[[0,0,100,50]]<|/det|>Hello\<close>
  the parser called with \<open>isOcrComplete = false\<close> returns exactly one annotation, which is
  not complete; called with \<open>isOcrComplete = true\<close> on the same text it returns one
  annotation that is complete and whose text content is \<open>Hello\<close>.
\<close>

theorem last_span_finality_example:
  "parseBoxesFromTokens (lit ''<|ref|>title<|/ref|><|det|>[[0,0,100,50]]<|/det|>Hello'') False
     = [\<lparr>content = lit ''title'', textContent = lit ''Hello'', isType = True,
         type = lit ''title'', x1 = Num 0, y1 = Num 0, x2 = Num 100, y2 = Num 50,
         isComplete = False\<rparr>]
   \<and> parseBoxesFromTokens (lit ''<|ref|>title<|/ref|><|det|>[[0,0,100,50]]<|/det|>Hello'') True
     = [\<lparr>content = lit ''title'', textContent = lit ''Hello'', isType = True,
         type = lit ''title'', x1 = Num 0, y1 = Num 0, x2 = Num 100, y2 = Num 50,
         isComplete = True\<rparr>]"
  by (simp add: single_example_boxes)

theorem last_span_finality_example_witness:
  "length (parseBoxesFromTokens (lit ''<|ref|>title<|/ref|><|det|>[[0,0,100,50]]<|/det|>Hello'') False) = 1
   \<and> \<not> isComplete (hd (parseBoxesFromTokens (lit ''<|ref|>title<|/ref|><|det|>[[0,0,100,50]]<|/det|>Hello'') False))
   \<and> isComplete (hd (parseBoxesFromTokens (lit ''<|ref|>title<|/ref|><|det|>[[0,0,100,50]]<|/det|>Hello'') True))
   \<and> textContent (hd (parseBoxesFromTokens (lit ''<|ref|>title<|/ref|><|det|>[[0,0,100,50]]<|/det|>Hello'') True))
       = lit ''Hello''"
  using last_span_finality_example by simp

text \<open>
  C10: every annotation the parser returns has a type that is a key of \<open>TYPE_COLORS\<close>:
  the type of a type label is its content, a member of \<open>KNOWN_TYPES\<close>, and the type of any
  other annotation is \<open>text\<close>. So the group rendered for it is never styled as an unknown
  type and never gets the fallback colour \<open>#FF1493\<close>.
\<close>

theorem parser_types_have_colors:
  assumes "b \<in> set (parseBoxesFromTokens tokenText isOcrComplete)"
  shows "map_of TYPE_COLORS (type b) \<noteq> None
    \<and> (isType b \<longrightarrow> type b = content b \<and> type b \<in> set KNOWN_TYPES)
    \<and> (\<not> isType b \<longrightarrow> type b = lit ''text'')
    \<and> \<not> isUnknownType (render_group imageWidth imageHeight promptType b)
    \<and> color (render_group imageWidth imageHeight promptType b) \<noteq> lit ''#FF1493''"
proof -
  from assms obtain i where
    "box_of_match tokenText isOcrComplete (fst (collect_matches tokenText 0 [])) i = Some b"
    by (auto simp: parseBoxesFromTokens_def Let_def set_map_filter)
  from box_of_match_type [OF this]
  have t: "isType b = (content b \<in> set KNOWN_TYPES)"
    and ty: "type b = (if isType b then content b else lit ''text'')" by simp_all
  have c: "map_of TYPE_COLORS (type b) \<noteq> None"
    using t ty known_types_have_colors [of "content b"] text_has_color by (cases "isType b") simp_all
  then obtain col where col: "map_of TYPE_COLORS (type b) = Some col" by auto
  from colors_not_hot_pink [OF col] col
  have "color (render_group imageWidth imageHeight promptType b) \<noteq> lit ''#FF1493''"
    by (simp add: render_group_def Let_def)
  moreover from col have "\<not> isUnknownType (render_group imageWidth imageHeight promptType b)"
    by (simp add: render_group_def Let_def)
  ultimately show ?thesis using c t ty by auto
qed

theorem parser_types_have_colors_witness:
  "map_of TYPE_COLORS (lit ''title'') \<noteq> None
   \<and> \<not> isUnknownType (render_group (Num 640) (Num 480) (lit ''document'')
        \<lparr>content = lit ''title'', textContent = lit ''Hello'', isType = True,
         type = lit ''title'', x1 = Num 0, y1 = Num 0, x2 = Num 100, y2 = Num 50,
         isComplete = True\<rparr>)"
  using parser_types_have_colors [of
      "\<lparr>content = lit ''title'', textContent = lit ''Hello'', isType = True,
         type = lit ''title'', x1 = Num 0, y1 = Num 0, x2 = Num 100, y2 = Num 50,
         isComplete = True\<rparr>"
      "lit ''<|ref|>title<|/ref|><|det|>[[0,0,100,50]]<|/det|>Hello''" True
      "Num 640" "Num 480" "lit ''document''"]
  by (simp add: single_example_boxes)

end
